theory Spec2Isabelle
  imports Main "HOL-Library.Sublist"
begin

section \<open>Strings\<close>

text \<open>
  A Go string is modelled by the sequence of Unicode code points that reading it rune by
  rune yields (for the strings this program handles, which come out of the XML and JSON
  decoders, that is the string itself, being valid UTF-8). The searches and slices of the
  program cut at ASCII delimiters only, so cutting the rune sequence is cutting the bytes.
\<close>

type_synonym rune = nat
type_synonym gostring = "rune list"

definition str :: "string \<Rightarrow> gostring" where
  "str cs = map of_char cs"

definition NL :: rune where "NL = 10"
definition CR :: rune where "CR = 13"
definition LT :: rune where "LT = 60"
definition GT :: rune where "GT = 62"
definition COLON :: rune where "COLON = 58"

text \<open>\<open>unicode.IsSpace\<close>; the scanner of package fmt uses the same set of runes.\<close>

definition isSpace :: "rune \<Rightarrow> bool" where
  "isSpace r \<longleftrightarrow>
     (9 \<le> r \<and> r \<le> 13) \<or> r = 32 \<or> r = 0x85 \<or> r = 0xA0 \<or> r = 0x1680 \<or>
     (0x2000 \<le> r \<and> r \<le> 0x200A) \<or> r = 0x2028 \<or> r = 0x2029 \<or> r = 0x202F \<or>
     r = 0x205F \<or> r = 0x3000"

text \<open>\<open>strings.Index\<close>: the position of the first occurrence, \<open>None\<close> for Go's \<open>-1\<close>.\<close>

fun Index :: "'a list \<Rightarrow> 'a list \<Rightarrow> nat option" where
  "Index [] sub = (if sub = [] then Some 0 else None)"
| "Index (x # xs) sub =
     (if prefix sub (x # xs) then Some 0 else map_option Suc (Index xs sub))"

definition Contains :: "'a list \<Rightarrow> 'a list \<Rightarrow> bool" where
  "Contains s sub \<longleftrightarrow> Index s sub \<noteq> None"

lemma Index_Some_bound: "Index s sub = Some i \<Longrightarrow> i + length sub \<le> length s"
proof (induction s arbitrary: i)
  case Nil
  then show ?case by (simp split: if_splits)
next
  case (Cons x xs)
  show ?case
  proof (cases "prefix sub (x # xs)")
    case True
    with Cons.prems show ?thesis by (auto dest: prefix_length_le)
  next
    case False
    with Cons.prems obtain j where "Index xs sub = Some j" "i = Suc j" by auto
    with Cons.IH show ?thesis by simp
  qed
qed

text \<open>
  \<open>strings.ReplaceAll\<close>: occurrences are replaced from left to right and do not overlap.
  For an empty \<open>old\<close> Go inserts \<open>new\<close> before every rune and at the end.
\<close>

function ReplaceAll :: "'a list \<Rightarrow> 'a list \<Rightarrow> 'a list \<Rightarrow> 'a list" where
  "ReplaceAll s old new =
     (if old = [] then new @ concat (map (\<lambda>c. c # new) s)
      else case Index s old of
             None \<Rightarrow> s
           | Some j \<Rightarrow> take j s @ new @ ReplaceAll (drop (j + length old) s) old new)"
  by pat_completeness auto
termination
proof (relation "measure (\<lambda>(s, old, new). length s)")
  show "wf (measure (\<lambda>(s, old, new). length s))" by simp
next
  fix s old new :: "'a list" and j
  assume "old \<noteq> []" "Index s old = Some j"
  then have "j + length old \<le> length s" "0 < length old"
    by (simp_all add: Index_Some_bound)
  then have "length s - (j + length old) < length s"
    by arith
  then show "((drop (j + length old) s, old, new), (s, old, new))
               \<in> measure (\<lambda>(s, old, new). length s)"
    by simp
qed

declare ReplaceAll.simps [simp del]

text \<open>\<open>strings.TrimSpace\<close>: leading white space is cut first, then trailing white space.\<close>

definition TrimSpace :: "gostring \<Rightarrow> gostring" where
  "TrimSpace s = rev (dropWhile isSpace (rev (dropWhile isSpace s)))"

lemma ReplaceAll_length_le:
  "old \<noteq> [] \<Longrightarrow> length new \<le> length old \<Longrightarrow> length (ReplaceAll s old new) \<le> length s"
proof (induction s old new rule: ReplaceAll.induct)
  case (1 s old new)
  show ?case
  proof (cases "Index s old")
    case None
    with 1 show ?thesis by (simp add: ReplaceAll.simps)
  next
    case (Some j)
    with 1 have IH: "length (ReplaceAll (drop (j + length old) s) old new) \<le> length s - (j + length old)"
      by simp
    from Some have "j + length old \<le> length s" by (rule Index_Some_bound)
    with IH 1 Some show ?thesis
      by (simp add: ReplaceAll.simps [of s])
  qed
qed

lemma ReplaceAll_length_less:
  assumes "old \<noteq> []" "length new < length old" "Index s old = Some j"
  shows "length (ReplaceAll s old new) < length s"
proof -
  have "length (ReplaceAll (drop (j + length old) s) old new) \<le> length s - (j + length old)"
    using ReplaceAll_length_le [of old new "drop (j + length old) s"] assms by simp
  moreover from assms have "j + length old \<le> length s" by (simp add: Index_Some_bound)
  ultimately show ?thesis using assms
    by (simp add: ReplaceAll.simps [of s])
qed

text \<open>The length of a string in bytes (Go's \<open>len\<close>): the sizes of the UTF-8 encodings.\<close>

definition utf8_size :: "rune \<Rightarrow> nat" where
  "utf8_size r = (if r < 0x80 then 1 else if r < 0x800 then 2 else if r < 0x10000 then 3 else 4)"

definition len :: "gostring \<Rightarrow> nat" where
  "len s = sum_list (map utf8_size s)"

text \<open>
  \<open>strings.SplitN\<close> (\<open>genSplit\<close>) for a count \<open>n \<ge> 0\<close>: at most \<open>n\<close> pieces, the last one
  the unsplit remainder; the count is capped at \<open>len(s) + 1\<close>. With an empty separator
  the string is cut after each rune (\<open>explode\<close>).
\<close>

fun genSplit_loop :: "nat \<Rightarrow> 'a list \<Rightarrow> 'a list \<Rightarrow> 'a list list" where
  "genSplit_loop 0 s sep = [s]"
| "genSplit_loop (Suc k) s sep =
     (case Index s sep of
        None \<Rightarrow> [s]
      | Some m \<Rightarrow> take m s # genSplit_loop k (drop (m + length sep) s) sep)"

definition explode :: "'a list \<Rightarrow> nat \<Rightarrow> 'a list list" where
  "explode s n =
     (let k = min n (length s)
      in if k = 0 then [] else map (\<lambda>c. [c]) (take (k - 1) s) @ [drop (k - 1) s])"

definition SplitN :: "gostring \<Rightarrow> gostring \<Rightarrow> nat \<Rightarrow> gostring list" where
  "SplitN s sep n =
     (if n = 0 then []
      else if sep = [] then explode s n
      else genSplit_loop (min n (len s + 1) - 1) s sep)"

section \<open>Package rss\<close>

text \<open>
  The tag-removal loop of \<open>cleanHTML\<close>: cut from the first \<open><\<close> through the first
  \<open>>\<close> after it, until there is no \<open><\<close> or no \<open>>\<close> after the first \<open><\<close>.
\<close>

function stripTags :: "gostring \<Rightarrow> gostring" where
  "stripTags s =
     (case Index s [LT] of
        None \<Rightarrow> s
      | Some start \<Rightarrow>
          (case Index (drop start s) [GT] of
             None \<Rightarrow> s
           | Some end \<Rightarrow> stripTags (take start s @ drop (start + end + 1) s)))"
  by pat_completeness auto
termination
proof (relation "measure length")
  show "wf (measure length)" by simp
next
  fix s :: gostring and start e
  assume "Index s [LT] = Some start" "Index (drop start s) [GT] = Some e"
  then have "start + 1 \<le> length s" "e + 1 \<le> length s - start"
    using Index_Some_bound [of s "[LT]" start] Index_Some_bound [of "drop start s" "[GT]" e]
    by simp_all
  then show "(take start s @ drop (start + e + 1) s, s) \<in> measure length"
    by simp
qed

declare stripTags.simps [simp del]

text \<open>The loop that replaces three newlines by two while three in a row remain.\<close>

function collapseNewlines :: "gostring \<Rightarrow> gostring" where
  "collapseNewlines s =
     (if Contains s [NL, NL, NL] then collapseNewlines (ReplaceAll s [NL, NL, NL] [NL, NL])
      else s)"
  by pat_completeness auto
termination
proof (relation "measure length")
  show "wf (measure length)" by simp
next
  fix s :: gostring
  assume "Contains s [NL, NL, NL]"
  then obtain j where "Index s [NL, NL, NL] = Some j"
    by (auto simp: Contains_def)
  then have "length (ReplaceAll s [NL, NL, NL] [NL, NL]) < length s"
    by (intro ReplaceAll_length_less) simp_all
  then show "(ReplaceAll s [NL, NL, NL] [NL, NL], s) \<in> measure length" by simp
qed

declare collapseNewlines.simps [simp del]

definition cleanHTML :: "gostring \<Rightarrow> gostring" where
  "cleanHTML s0 =
     (let s1 = ReplaceAll s0 (str ''<br>'') [NL];
          s2 = ReplaceAll s1 (str ''<br/>'') [NL];
          s3 = ReplaceAll s2 (str ''<br />'') [NL];
          s4 = ReplaceAll s3 (str ''<p>'') [NL];
          s5 = ReplaceAll s4 (str ''</p>'') [NL];
          s6 = stripTags s5;
          s7 = TrimSpace s6
      in collapseNewlines s7)"

text \<open>
  Three properties of a cleaned string: no \<open><\<close> has a \<open>>\<close> anywhere after it; the string
  is empty or neither begins nor ends with white space.
\<close>

fun noTag :: "gostring \<Rightarrow> bool" where
  "noTag [] = True"
| "noTag (c # cs) = (if c = LT then GT \<notin> set cs else noTag cs)"

definition trimmed :: "gostring \<Rightarrow> bool" where
  "trimmed s \<longleftrightarrow> s = [] \<or> (\<not> isSpace (hd s) \<and> \<not> isSpace (last s))"

record Item =
  Item_Title :: gostring
  Item_Link :: gostring
  Item_Description :: gostring
  Item_PubDate :: gostring
  Item_Categories :: "gostring list"
  Item_GUID :: gostring

record HistoricalEvent =
  Year :: gostring
  Title :: gostring
  Description :: gostring
  Category :: gostring
  Link :: gostring
  RawItem :: Item

record Holiday =
  Holiday_Title :: gostring
  Holiday_Description :: gostring
  Holiday_Link :: gostring

definition parseItem :: "Item \<Rightarrow> HistoricalEvent" where
  "parseItem item =
     (let event = \<lparr>Year = [], Title = Item_Title item,
                   Description = cleanHTML (Item_Description item), Category = [],
                   Link = Item_Link item, RawItem = item\<rparr>;
          parts = SplitN (Item_Title item) [COLON] 2;
          event = (if length parts = 2
                   then event\<lparr>Year := TrimSpace (parts ! 0), Title := TrimSpace (parts ! 1)\<rparr>
                   else event);
          event = (if length (Item_Categories item) > 0
                   then event\<lparr>Category := Item_Categories item ! 0\<rparr>
                   else event)
      in event)"

text \<open>Two items of the package's tests.\<close>

definition apollo :: Item where
  "apollo = \<lparr>Item_Title = str ''1969: Apollo 11 lands on the Moon'',
             Item_Link = str ''https://example.com/event/1'',
             Item_Description = str ''<p>The first human landing on the Moon</p>'',
             Item_PubDate = [],
             Item_Categories = [str ''Science'', str ''Space''],
             Item_GUID = []\<rparr>"

definition apollo_no_year :: Item where
  "apollo_no_year = \<lparr>Item_Title = str ''Apollo 11 lands on the Moon'',
             Item_Link = str ''https://example.com/event/2'',
             Item_Description = str ''The first human landing on the Moon'',
             Item_PubDate = [],
             Item_Categories = [str ''Science''],
             Item_GUID = []\<rparr>"

text \<open>
  The network and the decoders are outside the program. \<open>FetchAndParse\<close> reads them
  through the fields of a record: whether \<open>http.NewRequest\<close> accepts the URL, the
  response of the client to a GET of the URL (\<open>None\<close> is a transport error), the stream
  that \<open>gzip.NewReader\<close> yields for a body, what \<open>io.ReadAll\<close> reads from a stream and
  the channel items that \<open>xml.Unmarshal\<close> decodes from a document.
\<close>

datatype rss_error =
    CreateRequestFailed
  | FetchFailed
  | UnexpectedStatusCode nat
  | GzipReaderFailed
  | ReadBodyFailed
  | ParseXMLFailed
  | NoEventsFetched

record Response =
  StatusCode :: nat
  ContentEncoding :: gostring
  Body :: gostring

record Network =
  NewRequest :: "gostring \<Rightarrow> bool"
  Do :: "gostring \<Rightarrow> Response option"
  gzipNewReader :: "gostring \<Rightarrow> gostring option"
  ReadAll :: "gostring \<Rightarrow> gostring option"
  xmlUnmarshal :: "gostring \<Rightarrow> Item list option"

text \<open>The part that \<open>FetchAndParse\<close> and \<open>FetchHolidays\<close> share: request, status, gzip, XML.\<close>

definition fetchItems :: "Network \<Rightarrow> gostring \<Rightarrow> rss_error + Item list" where
  "fetchItems net url =
     (if \<not> NewRequest net url then Inl CreateRequestFailed
      else (case Do net url of
        None \<Rightarrow> Inl FetchFailed
      | Some resp \<Rightarrow>
          (if StatusCode resp \<noteq> 200 then Inl (UnexpectedStatusCode (StatusCode resp))
           else (case (if ContentEncoding resp = str ''gzip''
                       then gzipNewReader net (Body resp) else Some (Body resp)) of
              None \<Rightarrow> Inl GzipReaderFailed
            | Some reader \<Rightarrow>
                (case ReadAll net reader of
                   None \<Rightarrow> Inl ReadBodyFailed
                 | Some body \<Rightarrow>
                     (case xmlUnmarshal net body of
                        None \<Rightarrow> Inl ParseXMLFailed
                      | Some items \<Rightarrow> Inr items))))))"

definition FetchAndParse :: "Network \<Rightarrow> gostring \<Rightarrow> rss_error + HistoricalEvent list" where
  "FetchAndParse net url =
     (case fetchItems net url of
        Inl err \<Rightarrow> Inl err
      | Inr items \<Rightarrow> Inr (map parseItem items))"

text \<open>
  \<open>FetchMultipleFeeds\<close>: the loop over the URLs carries the events gathered so far and
  the warnings printed so far (a URL and the error of its fetch).
\<close>

fun FetchMultipleFeeds_loop ::
  "Network \<Rightarrow> gostring list \<Rightarrow> HistoricalEvent list \<Rightarrow> (gostring \<times> rss_error) list \<Rightarrow>
     HistoricalEvent list \<times> (gostring \<times> rss_error) list" where
  "FetchMultipleFeeds_loop net [] allEvents warnings = (allEvents, warnings)"
| "FetchMultipleFeeds_loop net (url # urls) allEvents warnings =
     (case FetchAndParse net url of
        Inl err \<Rightarrow> FetchMultipleFeeds_loop net urls allEvents (warnings @ [(url, err)])
      | Inr events \<Rightarrow> FetchMultipleFeeds_loop net urls (allEvents @ events) warnings)"

definition FetchMultipleFeeds ::
  "Network \<Rightarrow> gostring list \<Rightarrow> (rss_error + HistoricalEvent list) \<times> (gostring \<times> rss_error) list" where
  "FetchMultipleFeeds net urls =
     (let (allEvents, warnings) = FetchMultipleFeeds_loop net urls [] []
      in if length allEvents = 0 then (Inl NoEventsFetched, warnings)
         else (Inr allEvents, warnings))"

definition FetchHolidays :: "Network \<Rightarrow> gostring \<Rightarrow> rss_error + Holiday list" where
  "FetchHolidays net url =
     (case fetchItems net url of
        Inl err \<Rightarrow> Inl err
      | Inr items \<Rightarrow>
          Inr (map (\<lambda>item. \<lparr>Holiday_Title = Item_Title item,
                              Holiday_Description = cleanHTML (Item_Description item),
                              Holiday_Link = Item_Link item\<rparr>) items))"

text \<open>
  For the statement about \<open>FetchMultipleFeeds\<close>: the events of the feeds that could be
  fetched, in feed order, and the feeds that failed.
\<close>

definition fetchedEvents :: "Network \<Rightarrow> gostring list \<Rightarrow> HistoricalEvent list" where
  "fetchedEvents net urls =
     concat (map (\<lambda>url. case FetchAndParse net url of Inl err \<Rightarrow> [] | Inr events \<Rightarrow> events) urls)"

definition failedFeeds :: "Network \<Rightarrow> gostring list \<Rightarrow> (gostring \<times> rss_error) list" where
  "failedFeeds net urls =
     concat (map (\<lambda>url. case FetchAndParse net url of Inl err \<Rightarrow> [(url, err)] | Inr events \<Rightarrow> []) urls)"

text \<open>Two feeds: the first cannot be reached, the second has the two test items.\<close>

definition twoFeeds :: Network where
  "twoFeeds = \<lparr>NewRequest = (\<lambda>url. True),
               Do = (\<lambda>url. if url = str ''b'' then Some \<lparr>StatusCode = 200, ContentEncoding = [], Body = str ''x''\<rparr> else None),
               gzipNewReader = (\<lambda>body. None),
               ReadAll = Some,
               xmlUnmarshal = (\<lambda>body. Some [apollo, apollo_no_year])\<rparr>"

section \<open>Package llm\<close>

record SelectedEvent =
  Selected_Year :: gostring
  Selected_Title :: gostring
  Selected_Description :: gostring
  Selected_Category :: gostring

definition BACKTICK :: rune where "BACKTICK = 96"

definition fence :: gostring where
  "fence = [BACKTICK, BACKTICK, BACKTICK]"

definition fence_json :: gostring where
  "fence_json = fence @ str ''json''"

text \<open>
  \<open>extractJSON\<close>. The slice \<open>s[start : start+end]\<close> is \<open>take end (drop start s)\<close>. Each of
  the two blocks of the source either returns or falls through to what follows it.
\<close>

definition extractJSON :: "gostring \<Rightarrow> gostring" where
  "extractJSON s =
     (case (if Contains s fence_json
            then (case Index s fence_json of
                    None \<Rightarrow> None
                  | Some start0 \<Rightarrow>
                      (let start = start0 + length fence_json
                       in case Index (drop start s) fence of
                            None \<Rightarrow> None
                          | Some end \<Rightarrow> Some (take end (drop start s))))
            else None) of
        Some r \<Rightarrow> r
      | None \<Rightarrow>
          (case (if Contains s fence
                 then (case Index s fence of
                         None \<Rightarrow> None
                       | Some start0 \<Rightarrow>
                           (let start = start0 + length fence
                            in case Index (drop start s) fence of
                                 None \<Rightarrow> None
                               | Some end \<Rightarrow> Some (take end (drop start s))))
                 else None) of
             Some r \<Rightarrow> r
           | None \<Rightarrow> s))"

section \<open>Package scheduler\<close>

subsection \<open>Scanning the schedule\<close>

text \<open>
  \<open>ParseCron\<close> calls \<open>fmt.Sscanf(cronExpr, "%d %d %s %s %s", ...)\<close>. The scanner of package
  fmt is modelled for this format, on the runes that remain to be read. Every failure of
  the scanner is an error value; \<open>ParseCron\<close> does not look at which one it is.
\<close>

datatype scan_error =
    UnexpectedNewline
  | EOF
  | ExpectedInteger
  | SyntaxError
  | RangeError
  | ExpectedSpace
  | NewlineInInput

definition isDigit :: "rune \<Rightarrow> bool" where
  "isDigit r \<longleftrightarrow> 48 \<le> r \<and> r \<le> 57"

definition isSign :: "rune \<Rightarrow> bool" where
  "isSign r \<longleftrightarrow> r = 43 \<or> r = 45"

text \<open>
  \<open>SkipSpace\<close> with \<open>nlIsSpace\<close> false, as \<open>Sscanf\<close> sets it: spaces are skipped, a newline
  is an error.
\<close>

fun SkipSpace :: "gostring \<Rightarrow> scan_error + gostring" where
  "SkipSpace [] = Inr []"
| "SkipSpace (r # rs) =
     (if r = CR \<and> rs \<noteq> [] \<and> hd rs = NL then SkipSpace rs
      else if r = NL then Inl UnexpectedNewline
      else if \<not> isSpace r then Inr (r # rs)
      else SkipSpace rs)"

text \<open>The value of a run of decimal digits.\<close>

definition decimal :: "gostring \<Rightarrow> nat" where
  "decimal ds = foldl (\<lambda>n d. 10 * n + (d - 48)) 0 ds"

text \<open>
  \<open>strconv.ParseInt(tok, 10, 64)\<close>: an optional sign and decimal digits; a value outside
  the 64-bit range is an error.
\<close>

definition ParseInt :: "gostring \<Rightarrow> scan_error + int" where
  "ParseInt s =
     (if s = [] then Inl SyntaxError
      else
        (let neg = (hd s = 45);
             digits = (if isSign (hd s) then tl s else s)
         in if digits = [] \<or> \<not> list_all isDigit digits then Inl SyntaxError
            else
              (let un = decimal digits
               in if un \<ge> 2 ^ 64 then Inl RangeError
                  else if \<not> neg \<and> un \<ge> 2 ^ 63 then Inl RangeError
                  else if neg \<and> un > 2 ^ 63 then Inl RangeError
                  else Inr (if neg then - int un else int un))))"

text \<open>
  \<open>scanInt\<close> for the verb \<open>%d\<close>: skip spaces, require input, accept one sign, require a
  digit, read the digits, convert.
\<close>

definition scanInt :: "gostring \<Rightarrow> scan_error + (int \<times> gostring)" where
  "scanInt inp =
     (case SkipSpace inp of
        Inl e \<Rightarrow> Inl e
      | Inr s1 \<Rightarrow>
          (if s1 = [] then Inl EOF
           else
             (let sgn = (if isSign (hd s1) then [hd s1] else []);
                  s2 = (if isSign (hd s1) then tl s1 else s1)
              in if s2 = [] then Inl EOF
                 else if \<not> isDigit (hd s2) then Inl ExpectedInteger
                 else (case ParseInt (sgn @ takeWhile isDigit s2) of
                         Inl e \<Rightarrow> Inl e
                       | Inr i \<Rightarrow> Inr (i, dropWhile isDigit s2)))))"

text \<open>
  \<open>convertString\<close> for the verb \<open>%s\<close>: skip spaces, require input, and read the next word
  (\<open>token(true, notSpace)\<close> skips spaces once more).
\<close>

definition convertString :: "gostring \<Rightarrow> scan_error + (gostring \<times> gostring)" where
  "convertString inp =
     (case SkipSpace inp of
        Inl e \<Rightarrow> Inl e
      | Inr s1 \<Rightarrow>
          (if s1 = [] then Inl EOF
           else (case SkipSpace s1 of
                   Inl e \<Rightarrow> Inl e
                 | Inr s2 \<Rightarrow> Inr (takeWhile (\<lambda>r. \<not> isSpace r) s2,
                                   dropWhile (\<lambda>r. \<not> isSpace r) s2))))"

text \<open>
  \<open>advance\<close> on the single space that separates two verbs of the format: the input must
  be at its end or continue with a space that is not a newline; the spaces up to the next
  newline are skipped.
\<close>

definition advance :: "gostring \<Rightarrow> scan_error + gostring" where
  "advance inp =
     (case inp of
        [] \<Rightarrow> Inr []
      | inputc # rest \<Rightarrow>
          (if \<not> isSpace inputc then Inl ExpectedSpace
           else if inputc = NL then Inl NewlineInInput
           else Inr (dropWhile (\<lambda>r. isSpace r \<and> r \<noteq> NL) rest)))"

text \<open>A verb of \<open>doScanf\<close>: it skips spaces itself before it scans the operand.\<close>

definition verb_d :: "gostring \<Rightarrow> scan_error + (int \<times> gostring)" where
  "verb_d inp = (case SkipSpace inp of Inl e \<Rightarrow> Inl e | Inr s \<Rightarrow> scanInt s)"

definition verb_s :: "gostring \<Rightarrow> scan_error + (gostring \<times> gostring)" where
  "verb_s inp = (case SkipSpace inp of Inl e \<Rightarrow> Inl e | Inr s \<Rightarrow> convertString s)"

text \<open>
  The operands of the call: the variables keep their zero values until they are scanned.
\<close>

record operands =
  minute :: int
  hour :: int
  dayOfMonth :: gostring
  month :: gostring
  dayOfWeek :: gostring

definition zero_operands :: operands where
  "zero_operands = \<lparr>minute = 0, hour = 0, dayOfMonth = [], month = [], dayOfWeek = []\<rparr>"

text \<open>
  \<open>Sscanf\<close> with the format \<open>%d %d %s %s %s\<close>: the number of operands scanned, the error
  and the operands. What follows the fifth operand is not read.
\<close>

definition Sscanf :: "gostring \<Rightarrow> nat \<times> scan_error option \<times> operands" where
  "Sscanf inp =
     (let a = zero_operands in
      case verb_d inp of Inl e \<Rightarrow> (0, Some e, a) | Inr (v1, r1) \<Rightarrow>
     (let a = a\<lparr>minute := v1\<rparr> in
      case advance r1 of Inl e \<Rightarrow> (1, Some e, a) | Inr r1' \<Rightarrow>
     (case verb_d r1' of Inl e \<Rightarrow> (1, Some e, a) | Inr (v2, r2) \<Rightarrow>
     (let a = a\<lparr>hour := v2\<rparr> in
      case advance r2 of Inl e \<Rightarrow> (2, Some e, a) | Inr r2' \<Rightarrow>
     (case verb_s r2' of Inl e \<Rightarrow> (2, Some e, a) | Inr (v3, r3) \<Rightarrow>
     (let a = a\<lparr>dayOfMonth := v3\<rparr> in
      case advance r3 of Inl e \<Rightarrow> (3, Some e, a) | Inr r3' \<Rightarrow>
     (case verb_s r3' of Inl e \<Rightarrow> (3, Some e, a) | Inr (v4, r4) \<Rightarrow>
     (let a = a\<lparr>month := v4\<rparr> in
      case advance r4 of Inl e \<Rightarrow> (4, Some e, a) | Inr r4' \<Rightarrow>
     (case verb_s r4' of Inl e \<Rightarrow> (4, Some e, a) | Inr (v5, r5) \<Rightarrow>
        (5, None, a\<lparr>dayOfWeek := v5\<rparr>))))))))))"

datatype cron_error =
    InvalidCronExpression gostring
  | InvalidHour int
  | InvalidMinute int

text \<open>\<open>ParseCron\<close> returns the pair (hour, minute), or an error.\<close>

definition ParseCron :: "gostring \<Rightarrow> cron_error + (int \<times> int)" where
  "ParseCron cronExpr =
     (let (n, err, a) = Sscanf cronExpr
      in if err \<noteq> None \<or> n < 2 then Inl (InvalidCronExpression cronExpr)
         else if hour a < 0 \<or> hour a > 23 then Inl (InvalidHour (hour a))
         else if minute a < 0 \<or> minute a > 59 then Inl (InvalidMinute (minute a))
         else Inr (hour a, minute a))"


text \<open>
  For the statements about \<open>ParseCron\<close>: the fields of a schedule string are its maximal
  runs of runes that are not white space; an integer field is an optional sign followed
  by decimal digits, and has a value; the leading fields are the values of the first two
  fields, when both are integer fields.
\<close>

function cronFields :: "gostring \<Rightarrow> gostring list" where
  "cronFields s =
     (let t = dropWhile isSpace s
      in if t = [] then []
         else takeWhile (\<lambda>r. \<not> isSpace r) t # cronFields (dropWhile (\<lambda>r. \<not> isSpace r) t))"
  by pat_completeness auto
termination
proof (relation "measure length")
  show "wf (measure length)" by simp
next
  fix s t :: gostring
  assume t1: "t = dropWhile isSpace s" and t2: "t \<noteq> []"
  from t2 obtain x xs where x: "t = x # xs" by (cases t) auto
  have "length (dropWhile (\<lambda>r. \<not> isSpace r) (x # xs)) \<le> length (x # xs)"
    by (rule length_dropWhile_le)
  moreover have "\<not> isSpace x"
  proof -
    have "\<not> isSpace (hd t)"
      unfolding t1 using t2 [unfolded t1] by (rule hd_dropWhile)
    then show ?thesis unfolding x by simp
  qed
  ultimately have "length (dropWhile (\<lambda>r. \<not> isSpace r) t) < length t"
    using x by (simp add: le_imp_less_Suc length_dropWhile_le)
  moreover have "length t \<le> length s"
    unfolding t1 by (rule length_dropWhile_le)
  ultimately show "(dropWhile (\<lambda>r. \<not> isSpace r) t, s) \<in> measure length"
    by simp
qed

declare cronFields.simps [simp del]

definition intField :: "gostring \<Rightarrow> int option" where
  "intField f =
     (if f = [] then None
      else
        (let digits = (if isSign (hd f) then tl f else f)
         in if digits = [] \<or> \<not> list_all isDigit digits then None
            else Some (if hd f = 45 then - int (decimal digits) else int (decimal digits))))"

definition leadingFields :: "gostring \<Rightarrow> (int \<times> int) option" where
  "leadingFields s =
     (case cronFields s of
        f1 # f2 # others \<Rightarrow>
          (case (intField f1, intField f2) of
             (Some m, Some h) \<Rightarrow> Some (m, h)
           | _ \<Rightarrow> None)
      | _ \<Rightarrow> None)"

text \<open>For the proofs: after leading white space the input begins with the word \<open>tok\<close>, and \<open>r\<close> follows it.\<close>

definition token_at :: "gostring \<Rightarrow> gostring \<Rightarrow> gostring \<Rightarrow> bool" where
  "token_at s tok r \<longleftrightarrow>
     dropWhile isSpace s = tok @ r \<and> tok \<noteq> [] \<and> (\<forall>x \<in> set tok. \<not> isSpace x)"

subsection \<open>Time\<close>

text \<open>
  A \<open>Duration\<close> is a number of nanoseconds. A \<open>Time\<close> is the reading of the wall clock of
  the process's location, in nanoseconds since the midnight that begins day 0. The offset
  of the location from UTC is taken to be constant: a day has 24 hours, and the number of
  the day stands for the calendar date (year, month, day) that \<open>time.Date\<close> is given.
\<close>

type_synonym Duration = int
type_synonym Time = int

definition Second :: Duration where "Second = 1000000000"
definition Minute :: Duration where "Minute = 60 * Second"
definition Hour :: Duration where "Hour = 60 * Minute"

definition minDuration :: Duration where "minDuration = - (2 ^ 63)"
definition maxDuration :: Duration where "maxDuration = 2 ^ 63 - 1"

definition Time_Day :: "Time \<Rightarrow> int" where
  "Time_Day t = t div (24 * Hour)"



definition Date :: "int \<Rightarrow> int \<Rightarrow> int \<Rightarrow> int \<Rightarrow> int \<Rightarrow> Time" where
  "Date d h m sec nsec = d * (24 * Hour) + h * Hour + m * Minute + sec * Second + nsec"

definition After :: "Time \<Rightarrow> Time \<Rightarrow> bool" where
  "After t u \<longleftrightarrow> t > u"

definition Add :: "Time \<Rightarrow> Duration \<Rightarrow> Time" where
  "Add t d = t + d"

text \<open>\<open>t.Sub(u)\<close>: the difference, or the nearest \<open>Duration\<close> if it does not fit 64 bits.\<close>

definition Sub :: "Time \<Rightarrow> Time \<Rightarrow> Duration" where
  "Sub t u = (if t - u < minDuration then minDuration
              else if t - u > maxDuration then maxDuration else t - u)"

text \<open>\<open>time.Until(t)\<close>, with the reading \<open>now\<close> of the clock.\<close>

definition Until :: "Time \<Rightarrow> Time \<Rightarrow> Duration" where
  "Until now t = Sub t now"

subsection \<open>The next run\<close>

text \<open>\<open>NextRunTime\<close>, with the reading \<open>now\<close> of the clock that \<open>time.Now()\<close> returns.\<close>

definition NextRunTime :: "Time \<Rightarrow> gostring \<Rightarrow> cron_error + Time" where
  "NextRunTime now cronExpr =
     (case ParseCron cronExpr of
        Inl err \<Rightarrow> Inl err
      | Inr (h, m) \<Rightarrow>
          (let next = Date (Time_Day now) h m 0 0;
               next = (if After now next then Add next (24 * Hour) else next)
           in Inr next))"

definition DailyInterval :: Duration where
  "DailyInterval = 24 * Hour"

subsection \<open>The scheduler\<close>

text \<open>
  The scheduler blocks on a timer, on a ticker and on the context. A run is recorded as
  the list of what it received and did: a timer armed with a duration fired (at once, if
  the duration is not positive), a tick of a ticker of a period arrived, the job was
  called. The context is cancelled either during the first wait or after a number of
  ticks. The results of the job are given by a function of the number of the call.
\<close>

record Scheduler =
  interval :: Duration
  runOnce :: bool

definition NewScheduler :: "Duration \<Rightarrow> bool \<Rightarrow> Scheduler" where
  "NewScheduler i once = \<lparr>interval = i, runOnce = once\<rparr>"

datatype event = Timer Duration | Ticker Duration | RunJob

datatype cancellation = CancelledWhileWaiting | CancelledAfterTicks nat

datatype outcome = Done | JobFailed | Cancelled | TickerPanic

text \<open>The loop of \<open>Start\<close>: each tick received runs the job; cancellation ends the loop.\<close>

fun Start_loop :: "Duration \<Rightarrow> nat \<Rightarrow> event list" where
  "Start_loop period 0 = []"
| "Start_loop period (Suc ticks) = Ticker period # RunJob # Start_loop period ticks"

definition Start :: "Scheduler \<Rightarrow> (nat \<Rightarrow> bool) \<Rightarrow> nat \<Rightarrow> outcome \<times> event list" where
  "Start s job ticks =
     (if runOnce s then (if job 0 then (Done, [RunJob]) else (JobFailed, [RunJob]))
      else if interval s \<le> 0 then (TickerPanic, [RunJob])
      else (Cancelled, RunJob # Start_loop (interval s) ticks))"

definition StartAt ::
  "Scheduler \<Rightarrow> (nat \<Rightarrow> bool) \<Rightarrow> Time \<Rightarrow> Time \<Rightarrow> cancellation \<Rightarrow> outcome \<times> event list" where
  "StartAt s job now firstRun ctx =
     (let delay = Until now firstRun;
          delay = (if delay < 0 then delay + 24 * Hour else delay)
      in case ctx of
           CancelledWhileWaiting \<Rightarrow> (Cancelled, [])
         | CancelledAfterTicks ticks \<Rightarrow>
             (let (result, events) = Start s job ticks in (result, Timer delay # events)))"

text \<open>The instant at which a timer armed at \<open>now\<close> with a duration fires.\<close>

definition firesAt :: "Time \<Rightarrow> Duration \<Rightarrow> Time" where
  "firesAt now d = now + max 0 d"

section \<open>Package slack\<close>

record TextObject =
  TextObject_Type :: gostring
  TextObject_Text :: gostring

record Block =
  Block_Type :: gostring
  Block_Text :: "TextObject option"
  Block_Elements :: "TextObject list"

record Attachment =
  Attachment_Color :: gostring
  Attachment_Blocks :: "Block list"

record SlackMessage =
  Message_Text :: gostring
  Message_Blocks :: "Block list"
  Message_Attachments :: "Attachment list"

definition divider :: Block where
  "divider = \<lparr>Block_Type = str ''divider'', Block_Text = None, Block_Elements = []\<rparr>"

definition mrkdwn_section :: "gostring \<Rightarrow> Block" where
  "mrkdwn_section text =
     \<lparr>Block_Type = str ''section'',
      Block_Text = Some \<lparr>TextObject_Type = str ''mrkdwn'', TextObject_Text = text\<rparr>,
      Block_Elements = []\<rparr>"

definition BULLET :: rune where "BULLET = 0x2022"
definition CALENDAR :: rune where "CALENDAR = 0x1F4C5"
definition PARTY :: rune where "PARTY = 0x1F389"
definition STAR :: rune where "STAR = 42"

text \<open>The text of the holiday section: one bullet line for each holiday, joined by newlines.\<close>

fun holidayText_loop :: "nat \<Rightarrow> gostring list \<Rightarrow> gostring \<Rightarrow> gostring" where
  "holidayText_loop i [] holidayText = holidayText"
| "holidayText_loop i (holiday # holidays) holidayText =
     holidayText_loop (i + 1) holidays
       ((if i > 0 then holidayText @ [NL] else holidayText) @ [BULLET] @ str '' '' @ holiday)"

text \<open>
  The loop over the events: a section for each event, and a divider after every event but
  the last (\<open>i < len(events) - 1\<close>).
\<close>

fun eventBlocks :: "SelectedEvent list \<Rightarrow> Block list" where
  "eventBlocks [] = []"
| "eventBlocks (event # events) =
     (let header = [STAR] @ Selected_Year event @ [STAR] @ str '' '' @ [BULLET] @ str '' ''
                     @ Selected_Category event;
          titleText = [STAR] @ Selected_Title event @ [STAR];
          eventText = header @ [NL, NL] @ titleText @ [NL, NL] @ Selected_Description event
      in mrkdwn_section eventText # (if events \<noteq> [] then [divider] else []) @ eventBlocks events)"

text \<open>\<open>formatMessageWithHolidays\<close>; \<open>dateStr\<close> is the date that the clock gives.\<close>

definition formatMessageWithHolidays ::
  "gostring \<Rightarrow> SelectedEvent list \<Rightarrow> gostring list \<Rightarrow> SlackMessage" where
  "formatMessageWithHolidays dateStr events holidays =
     (let blocks =
            [\<lparr>Block_Type = str ''header'',
              Block_Text = Some \<lparr>TextObject_Type = str ''plain_text'',
                                 TextObject_Text = [CALENDAR] @ str '' On This Day in History - '' @ dateStr\<rparr>,
              Block_Elements = []\<rparr>,
             divider];
          blocks =
            (if length holidays > 0
             then blocks @ [mrkdwn_section ([STAR, PARTY] @ str '' Today's Fun Holidays'' @ [STAR])]
                         @ [mrkdwn_section (holidayText_loop 0 holidays [])]
                         @ [divider]
             else blocks);
          blocks = blocks @ eventBlocks events;
          blocks = blocks @
            [\<lparr>Block_Type = str ''context'', Block_Text = None,
              Block_Elements = [\<lparr>TextObject_Type = str ''mrkdwn'',
                                 TextObject_Text = str ''_Curated by AI from today's historical events_''\<rparr>]\<rparr>]
      in \<lparr>Message_Text = [], Message_Blocks = blocks, Message_Attachments = []\<rparr>)"

text \<open>
  What \<open>PostEventsWithHolidays\<close> does to the world is recorded as a list of effects: the
  serialization of a message, and a POST of a body to a URL. The serializer, the
  construction of the request and the webhook are read through a record: the bytes that
  \<open>json.Marshal\<close> yields, whether \<open>http.NewRequest\<close> accepts the URL, and the webhook's
  answer to a POST (\<open>None\<close> is a transport error; otherwise the status and the body, which is
  \<open>None\<close> if reading it fails).
\<close>

datatype slack_error =
    NoEventsOrHolidays
  | MarshalFailed
  | CreatePostFailed
  | RequestFailed
  | ReadResponseFailed
  | SlackStatus nat gostring

datatype effect = Marshal SlackMessage | Post gostring gostring

record Webhook =
  jsonMarshal :: "SlackMessage \<Rightarrow> gostring option"
  NewPostRequest :: "gostring \<Rightarrow> bool"
  DoPost :: "gostring \<Rightarrow> gostring \<Rightarrow> (nat \<times> gostring option) option"

record Poster =
  webhookURL :: gostring
  client :: Webhook

definition PostEventsWithHolidays ::
  "Poster \<Rightarrow> gostring \<Rightarrow> SelectedEvent list \<Rightarrow> gostring list \<Rightarrow> slack_error option \<times> effect list" where
  "PostEventsWithHolidays p dateStr events holidays =
     (if length events = 0 \<and> length holidays = 0 then (Some NoEventsOrHolidays, [])
      else
        (let message = formatMessageWithHolidays dateStr events holidays
         in (case jsonMarshal (client p) message of
               None \<Rightarrow> (Some MarshalFailed, [Marshal message])
             | Some reqBody \<Rightarrow>
                 (if \<not> NewPostRequest (client p) (webhookURL p)
                  then (Some CreatePostFailed, [Marshal message])
                  else (case DoPost (client p) (webhookURL p) reqBody of
                          None \<Rightarrow> (Some RequestFailed, [Marshal message, Post (webhookURL p) reqBody])
                        | Some (status, read) \<Rightarrow>
                            (case read of
                               None \<Rightarrow> (Some ReadResponseFailed,
                                         [Marshal message, Post (webhookURL p) reqBody])
                             | Some body \<Rightarrow>
                                 (if status \<noteq> 200
                                  then (Some (SlackStatus status body),
                                        [Marshal message, Post (webhookURL p) reqBody])
                                  else (None, [Marshal message, Post (webhookURL p) reqBody]))))))))"

definition PostEvents :: "Poster \<Rightarrow> gostring \<Rightarrow> SelectedEvent list \<Rightarrow> slack_error option \<times> effect list" where
  "PostEvents p dateStr events = PostEventsWithHolidays p dateStr events []"

section \<open>The command: holidays\<close>

text \<open>
  \<open>unicode.ToLower\<close>: the ASCII letters are mapped by the code itself; the lower-case
  mapping of the other runes is a table of the Unicode library, taken as the parameter
  \<open>table\<close>. \<open>strings.ToLower\<close> maps every rune of the string.
\<close>

definition unicode_ToLower :: "(rune \<Rightarrow> rune) \<Rightarrow> rune \<Rightarrow> rune" where
  "unicode_ToLower table r =
     (if r \<le> 0x7F then (if 65 \<le> r \<and> r \<le> 90 then r + 32 else r) else table r)"

definition ToLower :: "(rune \<Rightarrow> rune) \<Rightarrow> gostring \<Rightarrow> gostring" where
  "ToLower table s = map (unicode_ToLower table) s"

definition seriousKeywords :: "gostring list" where
  "seriousKeywords = map str
     [''International'', ''World'', ''National Awareness'', ''Day for'',
      ''Memorial'', ''Remembrance'', ''Victims'', ''Prevention'',
      ''Human Rights'', ''Peace'', ''Conflict'', ''War'', ''Violence'',
      ''Exploitation'', ''Poverty'', ''Hunger'', ''Disease'',
      ''Awareness Week'', ''Awareness Month'', ''Solidarity'',
      ''Against'', ''United Nations'', ''Commemoration'']"

definition contains :: "(rune \<Rightarrow> rune) \<Rightarrow> gostring \<Rightarrow> gostring \<Rightarrow> bool" where
  "contains table s substr \<longleftrightarrow>
     len s \<ge> len substr \<and> (s = substr \<or> Contains (ToLower table s) (ToLower table substr))"

text \<open>The inner loop of \<open>filterFunHolidays\<close>: it leaves at the first keyword found.\<close>

fun isFun_loop :: "(rune \<Rightarrow> rune) \<Rightarrow> gostring \<Rightarrow> gostring list \<Rightarrow> bool" where
  "isFun_loop table title [] = True"
| "isFun_loop table title (keyword # others) =
     (if contains table title keyword then False else isFun_loop table title others)"

fun filterFunHolidays_loop :: "(rune \<Rightarrow> rune) \<Rightarrow> Holiday list \<Rightarrow> Holiday list \<Rightarrow> Holiday list" where
  "filterFunHolidays_loop table [] funHolidays = funHolidays"
| "filterFunHolidays_loop table (holiday # holidays) funHolidays =
     (let isFun = isFun_loop table (Holiday_Title holiday) seriousKeywords
      in filterFunHolidays_loop table holidays
           (if isFun then funHolidays @ [holiday] else funHolidays))"

definition filterFunHolidays :: "(rune \<Rightarrow> rune) \<Rightarrow> Holiday list \<Rightarrow> Holiday list" where
  "filterFunHolidays table holidays = filterFunHolidays_loop table holidays []"

text \<open>
  The holiday part of the job of \<open>createJob\<close>, from the holidays fetched: the filter, the
  limit \<open>MaxHolidays\<close> of the configuration and the loop \<open>for i := 0; i < maxCount; i++\<close>
  that appends the titles.
\<close>

fun titles_loop :: "nat \<Rightarrow> nat \<Rightarrow> int \<Rightarrow> Holiday list \<Rightarrow> gostring list \<Rightarrow> gostring list" where
  "titles_loop 0 i maxCount funHolidays holidays = holidays"
| "titles_loop (Suc fuel) i maxCount funHolidays holidays =
     (if int i < maxCount
      then titles_loop fuel (i + 1) maxCount funHolidays
             (holidays @ [Holiday_Title (funHolidays ! i)])
      else holidays)"

definition selectHolidays :: "(rune \<Rightarrow> rune) \<Rightarrow> int \<Rightarrow> Holiday list \<Rightarrow> gostring list" where
  "selectHolidays table MaxHolidays holidayData =
     (let funHolidays = filterFunHolidays table holidayData;
          maxCount = MaxHolidays;
          maxCount = (if maxCount > int (length funHolidays) then int (length funHolidays)
                      else maxCount)
      in titles_loop (length funHolidays) 0 maxCount funHolidays [])"

text \<open>
  For the statement. A rune \<open>c\<close> of a title and a rune \<open>k\<close> of a keyword are the same when
  case is ignored: for an ASCII rune \<open>c\<close>, they are equal or they are the upper-case and the
  lower-case form of one letter (the lower-case letters stand 32 after the upper-case
  ones); a rune \<open>c\<close> outside ASCII is one that the Unicode table maps to the lower-case form
  of \<open>k\<close>. A title contains a keyword, case ignored, when a stretch of the title is the
  keyword rune by rune in that sense.
\<close>

definition isUpperASCII :: "rune \<Rightarrow> bool" where
  "isUpperASCII r \<longleftrightarrow> 65 \<le> r \<and> r \<le> 90"

definition sameIgnoringCase :: "(rune \<Rightarrow> rune) \<Rightarrow> rune \<Rightarrow> rune \<Rightarrow> bool" where
  "sameIgnoringCase table c k \<longleftrightarrow>
     (if c \<le> 0x7F
      then c = k \<or> (isUpperASCII c \<and> k = c + 32) \<or> (isUpperASCII k \<and> c = k + 32)
      else table c = (if isUpperASCII k then k + 32 else k))"

definition containsIgnoringCase :: "(rune \<Rightarrow> rune) \<Rightarrow> gostring \<Rightarrow> gostring \<Rightarrow> bool" where
  "containsIgnoringCase table s substr \<longleftrightarrow>
     (\<exists>pre mid post. s = pre @ mid @ post \<and> list_all2 (sameIgnoringCase table) mid substr)"

text \<open>The test that \<open>contains\<close> makes: the lower-cased keyword occurs in the lower-cased title.\<close>

definition lowerOccurs :: "(rune \<Rightarrow> rune) \<Rightarrow> gostring \<Rightarrow> gostring \<Rightarrow> bool" where
  "lowerOccurs table s substr \<longleftrightarrow>
     (\<exists>pre post. ToLower table s = pre @ ToLower table substr @ post)"

definition serious :: "(rune \<Rightarrow> rune) \<Rightarrow> gostring \<Rightarrow> bool" where
  "serious table title \<longleftrightarrow> (\<exists>keyword \<in> set seriousKeywords. containsIgnoringCase table title keyword)"

text \<open>A holiday with a title only, for examples.\<close>

definition holiday :: "string \<Rightarrow> Holiday" where
  "holiday title = \<lparr>Holiday_Title = str title, Holiday_Description = [], Holiday_Link = []\<rparr>"

section \<open>Facts about the string functions\<close>

lemma Index_single:
  "Index s [c] = (if c \<in> set s then Some (length (takeWhile (\<lambda>x. x \<noteq> c) s)) else None)"
  by (induction s) auto

lemma Index_Some_occ:
  "Index s sub = Some j \<Longrightarrow> s = take j s @ sub @ drop (j + length sub) s"
proof (induction s arbitrary: j)
  case Nil
  then show ?case by (simp split: if_splits)
next
  case (Cons x xs)
  show ?case
  proof (cases "prefix sub (x # xs)")
    case True
    then obtain zs where "x # xs = sub @ zs" by (auto simp: prefix_def)
    moreover from True Cons.prems have "j = 0" by simp
    ultimately show ?thesis by simp
  next
    case False
    with Cons.prems obtain k where k: "Index xs sub = Some k" "j = Suc k" by auto
    from Cons.IH [OF k(1)] k(2) show ?thesis by simp
  qed
qed

lemma Index_None_iff: "Index s sub = None \<longleftrightarrow> (\<forall>pre post. s \<noteq> pre @ sub @ post)"
proof (induction s)
  case Nil
  then show ?case by auto
next
  case (Cons x xs)
  show ?case
  proof
    assume N: "Index (x # xs) sub = None"
    then have np: "\<not> prefix sub (x # xs)" and "Index xs sub = None"
      by (auto split: if_splits)
    with Cons.IH have no: "\<forall>pre post. xs \<noteq> pre @ sub @ post" by simp
    show "\<forall>pre post. x # xs \<noteq> pre @ sub @ post"
    proof (intro allI notI)
      fix pre post
      assume e: "x # xs = pre @ sub @ post"
      show False
      proof (cases pre)
        case Nil
        with e np show False by (simp add: prefix_def)
      next
        case (Cons p ps)
        with e no show False by simp
      qed
    qed
  next
    assume A: "\<forall>pre post. x # xs \<noteq> pre @ sub @ post"
    have "\<not> prefix sub (x # xs)"
      using A by (metis append_Nil prefix_def)
    moreover have "\<forall>pre post. xs \<noteq> pre @ sub @ post"
      using A by (metis append_Cons)
    ultimately show "Index (x # xs) sub = None"
      using Cons.IH by simp
  qed
qed

section \<open>Facts about \<open>cleanHTML\<close>\<close>

lemma noTag_no_LT: "LT \<notin> set s \<Longrightarrow> noTag s"
  by (induction s) auto

lemma noTag_no_GT: "GT \<notin> set s \<Longrightarrow> noTag s"
  by (induction s) auto

lemma noTag_append_left: "LT \<notin> set a \<Longrightarrow> noTag (a @ t) = noTag t"
  by (induction a) auto

lemma noTag_iff: "noTag s \<longleftrightarrow> (\<forall>a b c. s \<noteq> a @ LT # b @ GT # c)"
proof (induction s)
  case Nil
  then show ?case by simp
next
  case (Cons x xs)
  show ?case
  proof
    assume nt: "noTag (x # xs)"
    show "\<forall>a b c. x # xs \<noteq> a @ LT # b @ GT # c"
    proof (intro allI notI)
      fix a b c
      assume e: "x # xs = a @ LT # b @ GT # c"
      show False
      proof (cases a)
        case Nil
        with e nt show False by auto
      next
        case (Cons y ys)
        with e have xs: "xs = ys @ LT # b @ GT # c" by simp
        show False
        proof (cases "x = LT")
          case True
          with nt xs show False by simp
        next
          case False
          with nt have "noTag xs" by simp
          with Cons.IH xs show False by blast
        qed
      qed
    qed
  next
    assume A: "\<forall>a b c. x # xs \<noteq> a @ LT # b @ GT # c"
    show "noTag (x # xs)"
    proof (cases "x = LT")
      case True
      have "GT \<notin> set xs"
      proof
        assume "GT \<in> set xs"
        then obtain b c where "xs = b @ GT # c" by (auto dest: split_list)
        with True have "x # xs = [] @ LT # b @ GT # c" by simp
        with A show False by blast
      qed
      with True show ?thesis by simp
    next
      case False
      have "\<forall>a b c. xs \<noteq> a @ LT # b @ GT # c"
        using A by (metis append_Cons)
      with Cons.IH False show ?thesis by simp
    qed
  qed
qed

lemma noTag_subseq: "subseq t s \<Longrightarrow> noTag s \<Longrightarrow> noTag t"
proof (induction rule: list_emb.induct)
  case (list_emb_Nil ys)
  then show ?case by simp
next
  case (list_emb_Cons xs ys y)
  from list_emb_Cons.prems have "noTag ys"
    by (auto simp: noTag_no_GT split: if_splits)
  with list_emb_Cons.IH show ?case by simp
next
  case (list_emb_Cons2 x y xs ys)
  show ?case
  proof (cases "x = LT")
    case True
    with list_emb_Cons2 have "GT \<notin> set ys" by simp
    moreover from list_emb_Cons2 have "GT \<in> set xs \<Longrightarrow> GT \<in> set ys"
      by (metis subseq_singleton_left subseq_order.order_trans)
    ultimately show ?thesis using True by auto
  next
    case False
    with list_emb_Cons2 show ?thesis by simp
  qed
qed

lemma stripTags_noTag: "noTag (stripTags s)"
proof (induction s rule: stripTags.induct)
  case (1 s)
  show ?case
  proof (cases "LT \<in> set s")
    case False
    then show ?thesis by (simp add: stripTags.simps [of s] Index_single noTag_no_LT)
  next
    case True
    let ?start = "length (takeWhile (\<lambda>x. x \<noteq> LT) s)"
    have start: "Index s [LT] = Some ?start" using True by (simp add: Index_single)
    have dr: "drop ?start s = dropWhile (\<lambda>x. x \<noteq> LT) s"
      by (simp add: dropWhile_eq_drop)
    show ?thesis
    proof (cases "GT \<in> set (drop ?start s)")
      case False
      have "s = takeWhile (\<lambda>x. x \<noteq> LT) s @ drop ?start s"
        using dr by simp
      moreover have "noTag (takeWhile (\<lambda>x. x \<noteq> LT) s @ drop ?start s)"
      proof -
        have "LT \<notin> set (takeWhile (\<lambda>x. x \<noteq> LT) s)"
          by (auto dest: set_takeWhileD)
        then show ?thesis using False by (simp add: noTag_append_left noTag_no_GT)
      qed
      ultimately have "noTag s" by simp
      moreover have "stripTags s = s"
        using start False by (simp add: stripTags.simps [of s] Index_single)
      ultimately show ?thesis by simp
    next
      case G: True
      let ?e = "length (takeWhile (\<lambda>x. x \<noteq> GT) (drop ?start s))"
      have e: "Index (drop ?start s) [GT] = Some ?e" using G by (simp add: Index_single)
      from 1 [OF start e] start e show ?thesis
        by (simp add: stripTags.simps [of s])
    qed
  qed
qed

lemma stripTags_id: "noTag s \<Longrightarrow> stripTags s = s"
proof (cases "Index s [LT]")
  case None
  then show ?thesis by (simp add: stripTags.simps [of s])
next
  case (Some start)
  assume nt: "noTag s"
  from Some have s: "s = take start s @ [LT] @ drop (start + 1) s"
    using Index_Some_occ [of s "[LT]" start] by simp
  have "Index (drop start s) [GT] = None"
  proof (rule ccontr)
    assume "Index (drop start s) [GT] \<noteq> None"
    then have "GT \<in> set (drop start s)" by (simp add: Index_single split: if_splits)
    moreover have "drop start s = LT # drop (start + 1) s"
      using s by (metis append_Cons append_Nil append_take_drop_id same_append_eq)
    ultimately have "GT \<in> set (drop (start + 1) s)" by (simp add: GT_def LT_def)
    then obtain b c where "drop (start + 1) s = b @ GT # c" by (auto dest: split_list)
    with s have "s = take start s @ LT # b @ GT # c" by simp
    with nt show False using noTag_iff by blast
  qed
  with Some show ?thesis by (simp add: stripTags.simps [of s])
qed


lemma ReplaceAll_no_occurrence: "old \<noteq> [] \<Longrightarrow> Index s old = None \<Longrightarrow> ReplaceAll s old new = s"
  by (simp add: ReplaceAll.simps [of s])

lemma ReplaceAll_subseq:
  "old \<noteq> [] \<Longrightarrow> subseq new old \<Longrightarrow> subseq (ReplaceAll s old new) s"
proof (induction s old new rule: ReplaceAll.induct)
  case (1 s old new)
  show ?case
  proof (cases "Index s old")
    case None
    with 1 show ?thesis by (simp add: ReplaceAll.simps [of s])
  next
    case (Some j)
    let ?rest = "drop (j + length old) s"
    from 1 Some have IH: "subseq (ReplaceAll ?rest old new) ?rest" by simp
    have s: "s = take j s @ old @ ?rest" using Some by (rule Index_Some_occ)
    have "subseq (take j s @ new @ ReplaceAll ?rest old new) (take j s @ old @ ?rest)"
      using IH "1.prems"(2) by (intro list_emb_append_mono) simp_all
    with s 1 Some show ?thesis by (simp add: ReplaceAll.simps [of s])
  qed
qed

lemma noTag_Index_tag: "noTag s \<Longrightarrow> Index s (LT # mid @ [GT]) = None"
  unfolding Index_None_iff noTag_iff by (metis append_Cons append_Nil append_assoc)

lemma TrimSpace_subseq: "subseq (TrimSpace s) s"
proof -
  have "prefix (rev (dropWhile isSpace (rev (dropWhile isSpace s)))) (dropWhile isSpace s)"
    by (metis suffix_dropWhile suffix_to_prefix rev_rev_ident)
  moreover have "suffix (dropWhile isSpace s) s" by (rule suffix_dropWhile)
  ultimately show ?thesis
    unfolding TrimSpace_def by (meson prefix_imp_subseq suffix_imp_subseq subseq_order.order_trans)
qed

lemma TrimSpace_trimmed: "trimmed (TrimSpace s)"
proof (cases "TrimSpace s = []")
  case True
  then show ?thesis by (simp add: trimmed_def)
next
  case False
  let ?d = "dropWhile isSpace s"
  let ?r = "dropWhile isSpace (rev ?d)"
  from False have r: "?r \<noteq> []" by (simp add: TrimSpace_def)
  then have "\<not> isSpace (hd ?r)" by (rule hd_dropWhile)
  then have last: "\<not> isSpace (last (TrimSpace s))"
    using r by (simp add: TrimSpace_def last_rev)
  from r have d: "?d \<noteq> []" by (metis dropWhile.simps(1) rev_is_Nil_conv)
  then have hd: "\<not> isSpace (hd ?d)" by (rule hd_dropWhile)
  obtain k where k: "rev ?d = k @ ?r"
    by (metis takeWhile_dropWhile_id)
  then have "?d = rev ?r @ rev k" by (metis rev_append rev_rev_ident)
  then have "hd ?d = hd (rev ?r)" using r by (metis hd_append2 rev_is_Nil_conv)
  with hd have "\<not> isSpace (hd (TrimSpace s))" by (simp add: TrimSpace_def)
  with last show ?thesis by (simp add: trimmed_def)
qed

lemma TrimSpace_id: "trimmed s \<Longrightarrow> TrimSpace s = s"
proof (cases "s = []")
  case True
  then show ?thesis by (simp add: TrimSpace_def)
next
  case False
  assume "trimmed s"
  with False have h: "\<not> isSpace (hd s)" and l: "\<not> isSpace (last s)"
    by (simp_all add: trimmed_def)
  from h False have "dropWhile isSpace s = s" by (cases s) simp_all
  moreover from l False have "dropWhile isSpace (rev s) = rev s"
    by (cases "rev s") (simp_all add: last_rev [symmetric] hd_rev)
  ultimately show ?thesis by (simp add: TrimSpace_def)
qed


lemma isSpace_NL: "isSpace NL"
  by (simp add: isSpace_def NL_def)

lemma ReplaceAll_NL_hd:
  assumes "s \<noteq> []" "hd s \<noteq> NL"
  shows "ReplaceAll s [NL, NL, NL] [NL, NL] \<noteq> [] \<and> hd (ReplaceAll s [NL, NL, NL] [NL, NL]) = hd s"
proof (cases "Index s [NL, NL, NL]")
  case None
  with assms show ?thesis by (simp add: ReplaceAll.simps [of s])
next
  case (Some j)
  from assms obtain x xs where s: "s = x # xs" "x \<noteq> NL" by (cases s) auto
  with Some obtain k where "j = Suc k" by (auto split: if_splits)
  with Some s show ?thesis by (simp add: ReplaceAll.simps [of "x # xs"])
qed

lemma ReplaceAll_occurrence:
  "old \<noteq> [] \<Longrightarrow> Index s old = Some j \<Longrightarrow>
     ReplaceAll s old new = take j s @ new @ ReplaceAll (drop (j + length old) s) old new"
  by (subst ReplaceAll.simps) simp

lemma ReplaceAll_NL_last:
  "s \<noteq> [] \<Longrightarrow> last s \<noteq> NL \<Longrightarrow>
     ReplaceAll s [NL, NL, NL] [NL, NL] \<noteq> [] \<and> last (ReplaceAll s [NL, NL, NL] [NL, NL]) = last s"
proof (induction "length s" arbitrary: s rule: less_induct)
  case less
  show ?case
  proof (cases "Index s [NL, NL, NL]")
    case None
    with less.prems show ?thesis by (simp add: ReplaceAll_no_occurrence)
  next
    case (Some j)
    define a where "a = take j s"
    define r where "r = drop (j + length [NL, NL, NL]) s"
    have s: "s = a @ [NL, NL, NL] @ r"
      unfolding a_def r_def using Some by (rule Index_Some_occ)
    have rest: "r \<noteq> []"
    proof
      assume "r = []"
      with s have "last s = NL" by simp
      with less.prems show False by simp
    qed
    have ls: "last s = last r"
      using s rest by simp
    have "length r < length s"
      using s by simp
    from less.hyps [OF this rest] ls less.prems
    have IH: "ReplaceAll r [NL, NL, NL] [NL, NL] \<noteq> [] \<and>
          last (ReplaceAll r [NL, NL, NL] [NL, NL]) = last s"
      by simp
    have "ReplaceAll s [NL, NL, NL] [NL, NL] = a @ [NL, NL] @ ReplaceAll r [NL, NL, NL] [NL, NL]"
      unfolding a_def r_def using Some by (intro ReplaceAll_occurrence) simp_all
    with IH show ?thesis by simp
  qed
qed

lemma ReplaceAll_NL_trimmed:
  assumes "trimmed s"
  shows "trimmed (ReplaceAll s [NL, NL, NL] [NL, NL])"
proof (cases "s = []")
  case True
  then show ?thesis by (simp add: ReplaceAll_no_occurrence trimmed_def)
next
  case False
  with assms have "hd s \<noteq> NL" "last s \<noteq> NL" "\<not> isSpace (hd s)" "\<not> isSpace (last s)"
    using isSpace_NL by (auto simp: trimmed_def)
  with False ReplaceAll_NL_hd [of s] ReplaceAll_NL_last [of s] show ?thesis
    by (simp add: trimmed_def)
qed

lemma collapseNewlines_subseq: "subseq (collapseNewlines s) s"
proof (induction s rule: collapseNewlines.induct)
  case (1 s)
  show ?case
  proof (cases "Contains s [NL, NL, NL]")
    case True
    have "subseq (ReplaceAll s [NL, NL, NL] [NL, NL]) s"
      by (rule ReplaceAll_subseq) simp_all
    with 1 [OF True] True show ?thesis
      by (simp add: collapseNewlines.simps [of s])
  next
    case False
    then show ?thesis by (simp add: collapseNewlines.simps [of s])
  qed
qed

lemma collapseNewlines_no_triple: "\<not> Contains (collapseNewlines s) [NL, NL, NL]"
proof (induction s rule: collapseNewlines.induct)
  case (1 s)
  then show ?case
    by (cases "Contains s [NL, NL, NL]") (simp_all add: collapseNewlines.simps [of s])
qed

lemma collapseNewlines_trimmed: "trimmed s \<Longrightarrow> trimmed (collapseNewlines s)"
proof (induction s rule: collapseNewlines.induct)
  case (1 s)
  then show ?case
    by (cases "Contains s [NL, NL, NL]")
       (simp_all add: collapseNewlines.simps [of s] ReplaceAll_NL_trimmed)
qed

lemma collapseNewlines_id: "\<not> Contains s [NL, NL, NL] \<Longrightarrow> collapseNewlines s = s"
  by (simp add: collapseNewlines.simps [of s])

lemma cleanHTML_eq:
  "cleanHTML s = collapseNewlines (TrimSpace (stripTags
      (ReplaceAll (ReplaceAll (ReplaceAll (ReplaceAll (ReplaceAll s
         (str ''<br>'') [NL]) (str ''<br/>'') [NL]) (str ''<br />'') [NL])
         (str ''<p>'') [NL]) (str ''</p>'') [NL])))"
  by (simp add: cleanHTML_def)

lemma cleanHTML_noTag: "noTag (cleanHTML s)"
  unfolding cleanHTML_eq
  by (meson noTag_subseq collapseNewlines_subseq TrimSpace_subseq stripTags_noTag)

lemma cleanHTML_trimmed: "trimmed (cleanHTML s)"
  unfolding cleanHTML_eq by (intro collapseNewlines_trimmed TrimSpace_trimmed)

lemma cleanHTML_no_triple: "\<not> Contains (cleanHTML s) [NL, NL, NL]"
  unfolding cleanHTML_eq by (rule collapseNewlines_no_triple)

lemma tag_patterns:
  "str ''<br>'' = LT # str ''br'' @ [GT]"
  "str ''<br/>'' = LT # str ''br/'' @ [GT]"
  "str ''<br />'' = LT # str ''br /'' @ [GT]"
  "str ''<p>'' = LT # str ''p'' @ [GT]"
  "str ''</p>'' = LT # str ''/p'' @ [GT]"
  by (simp_all add: str_def LT_def GT_def)

lemma ReplaceAll_tag_id: "noTag s \<Longrightarrow> ReplaceAll s (LT # mid @ [GT]) new = s"
  by (simp add: ReplaceAll_no_occurrence noTag_Index_tag)

lemma cleanHTML_fixpoint:
  assumes "noTag s" "trimmed s" "\<not> Contains s [NL, NL, NL]"
  shows "cleanHTML s = s"
  unfolding cleanHTML_eq tag_patterns
  using assms by (simp add: ReplaceAll_tag_id stripTags_id TrimSpace_id collapseNewlines_id)

section \<open>Facts about \<open>parseItem\<close>\<close>

lemma len_pos: "s \<noteq> [] \<Longrightarrow> 0 < len s"
  by (cases s) (simp_all add: len_def utf8_size_def)

lemma SplitN_colon:
  "SplitN s [COLON] 2 =
     (if COLON \<in> set s
      then [takeWhile (\<lambda>c. c \<noteq> COLON) s, tl (dropWhile (\<lambda>c. c \<noteq> COLON) s)]
      else [s])"
proof (cases "s = []")
  case True
  then show ?thesis by (simp add: SplitN_def len_def)
next
  case False
  let ?n = "length (takeWhile (\<lambda>c. c \<noteq> COLON) s)"
  have k: "min 2 (len s + 1) - 1 = Suc 0"
    using len_pos [OF False] by simp
  have t: "take ?n s = takeWhile (\<lambda>c. c \<noteq> COLON) s"
    by (simp add: takeWhile_eq_take [symmetric])
  have d: "drop (?n + length [COLON]) s = tl (dropWhile (\<lambda>c. c \<noteq> COLON) s)"
    by (simp add: dropWhile_eq_drop drop_Suc tl_drop)
  show ?thesis
    unfolding SplitN_def k using t d by (simp add: Index_single)
qed

section \<open>Facts about the feeds, the JSON extraction and the holidays\<close>

lemma FetchMultipleFeeds_loop_eq:
  "FetchMultipleFeeds_loop net urls allEvents warnings =
     (allEvents @ fetchedEvents net urls, warnings @ failedFeeds net urls)"
  by (induction urls arbitrary: allEvents warnings)
     (simp_all add: fetchedEvents_def failedFeeds_def split: sum.splits)

lemma Contains_fence_json: "Contains s fence_json \<Longrightarrow> Contains s fence"
proof -
  assume "Contains s fence_json"
  then obtain pre post where "s = pre @ fence_json @ post"
    unfolding Contains_def Index_None_iff by blast
  then have "s = pre @ fence @ (str ''json'' @ post)"
    by (simp add: fence_json_def)
  then show "Contains s fence"
    unfolding Contains_def Index_None_iff by blast
qed

lemma extractJSON_tagged:
  assumes "s = pre @ fence_json @ body @ fence @ post"
    and "Index s fence_json = Some (length pre)"
    and "Index (body @ fence @ post) fence = Some (length body)"
  shows "extractJSON s = body"
proof -
  have "drop (length pre + length fence_json) s = body @ fence @ post"
    using assms(1) by simp
  with assms(2,3) show ?thesis
    by (simp add: extractJSON_def Contains_def)
qed

lemma extractJSON_untagged:
  assumes "s = pre @ fence @ body @ fence @ post"
    and "\<not> Contains s fence_json"
    and "Index s fence = Some (length pre)"
    and "Index (body @ fence @ post) fence = Some (length body)"
  shows "extractJSON s = body"
proof -
  have "drop (length pre + length fence) s = body @ fence @ post"
    using assms(1) by simp
  with assms(2,3,4) show ?thesis
    by (simp add: extractJSON_def Contains_def)
qed

lemma extractJSON_no_fence: "\<not> Contains s fence \<Longrightarrow> extractJSON s = s"
  using Contains_fence_json [of s] by (auto simp: extractJSON_def)

lemmas fence_simps = fence_def fence_json_def BACKTICK_def str_def NL_def

lemma PostEventsWithHolidays_something:
  "events \<noteq> [] \<or> holidays \<noteq> [] \<Longrightarrow>
     \<exists>rest. snd (PostEventsWithHolidays p dateStr events holidays)
              = Marshal (formatMessageWithHolidays dateStr events holidays) # rest"
  by (auto simp: PostEventsWithHolidays_def Let_def split: option.splits prod.splits)

lemma len_ge_length: "length s \<le> len s"
  by (induction s) (simp_all add: len_def utf8_size_def)

lemma len_ascii: "\<forall>r \<in> set s. r < 0x80 \<Longrightarrow> len s = length s"
  by (induction s) (simp_all add: len_def utf8_size_def)

lemma seriousKeywords_ascii: "keyword \<in> set seriousKeywords \<Longrightarrow> \<forall>r \<in> set keyword. r < 0x80"
  by (auto simp: seriousKeywords_def str_def)

lemma contains_lowerOccurs:
  assumes "keyword \<in> set seriousKeywords"
  shows "contains table title keyword \<longleftrightarrow> lowerOccurs table title keyword"
proof -
  have k: "len keyword = length keyword"
    using assms by (intro len_ascii seriousKeywords_ascii)
  have occ: "Contains (ToLower table title) (ToLower table keyword)
               \<longleftrightarrow> lowerOccurs table title keyword"
    by (simp add: Contains_def Index_None_iff lowerOccurs_def)
  show ?thesis
  proof
    assume "contains table title keyword"
    then have "title = keyword \<or> Contains (ToLower table title) (ToLower table keyword)"
      by (simp add: contains_def)
    then show "lowerOccurs table title keyword"
    proof
      assume "title = keyword"
      then have "ToLower table title = [] @ ToLower table keyword @ []" by simp
      then show ?thesis unfolding lowerOccurs_def by blast
    next
      assume "Contains (ToLower table title) (ToLower table keyword)"
      with occ show ?thesis by simp
    qed
  next
    assume c: "lowerOccurs table title keyword"
    then obtain pre post where "ToLower table title = pre @ ToLower table keyword @ post"
      unfolding lowerOccurs_def by blast
    then have "length (ToLower table title) = length (pre @ ToLower table keyword @ post)"
      by simp
    then have "length keyword \<le> length title"
      by (simp add: ToLower_def)
    with k len_ge_length [of title] have "len keyword \<le> len title" by simp
    with c occ show "contains table title keyword"
      by (simp add: contains_def)
  qed
qed

lemma sameIgnoringCase_ToLower:
  "k \<le> 0x7F \<Longrightarrow>
     sameIgnoringCase table c k \<longleftrightarrow> unicode_ToLower table c = unicode_ToLower table k"
  by (auto simp: sameIgnoringCase_def unicode_ToLower_def isUpperASCII_def)

lemma list_all2_sameIgnoringCase:
  "\<forall>k \<in> set ks. k \<le> 0x7F \<Longrightarrow>
     list_all2 (sameIgnoringCase table) mid ks \<longleftrightarrow> ToLower table mid = ToLower table ks"
proof (induction mid arbitrary: ks)
  case Nil
  then show ?case by (auto simp: ToLower_def)
next
  case (Cons c mid)
  show ?case
  proof (cases ks)
    case Nil
    then show ?thesis by (simp add: ToLower_def)
  next
    case (Cons k ks')
    with Cons.prems have "k \<le> 0x7F" "\<forall>k \<in> set ks'. k \<le> 0x7F" by simp_all
    with Cons.IH [of ks'] Cons show ?thesis
      by (simp add: ToLower_def sameIgnoringCase_ToLower)
  qed
qed

lemma lowerOccurs_iff:
  assumes "\<forall>k \<in> set keyword. k \<le> 0x7F"
  shows "lowerOccurs table title keyword \<longleftrightarrow> containsIgnoringCase table title keyword"
proof
  assume "lowerOccurs table title keyword"
  then obtain pre' post' where "ToLower table title = pre' @ ToLower table keyword @ post'"
    unfolding lowerOccurs_def by blast
  then have e: "map (unicode_ToLower table) title
                  = pre' @ (map (unicode_ToLower table) keyword @ post')"
    by (simp add: ToLower_def)
  from e obtain pre rest where 1: "title = pre @ rest"
      and 2: "map (unicode_ToLower table) rest = map (unicode_ToLower table) keyword @ post'"
    by (metis map_eq_append_conv)
  from 2 obtain mid post where 3: "rest = mid @ post"
      and 4: "map (unicode_ToLower table) keyword = map (unicode_ToLower table) mid"
    by (metis map_eq_append_conv)
  from 4 have "list_all2 (sameIgnoringCase table) mid keyword"
    using list_all2_sameIgnoringCase [OF assms, of table mid] by (simp add: ToLower_def)
  with 1 3 show "containsIgnoringCase table title keyword"
    unfolding containsIgnoringCase_def by blast
next
  assume "containsIgnoringCase table title keyword"
  then obtain pre mid post where 1: "title = pre @ mid @ post"
      and 2: "list_all2 (sameIgnoringCase table) mid keyword"
    unfolding containsIgnoringCase_def by blast
  from 2 have "ToLower table mid = ToLower table keyword"
    using list_all2_sameIgnoringCase [OF assms, of table mid] by simp
  then have "ToLower table title
               = ToLower table pre @ ToLower table keyword @ ToLower table post"
    unfolding 1 by (simp add: ToLower_def)
  then show "lowerOccurs table title keyword"
    unfolding lowerOccurs_def by blast
qed

lemma contains_keyword:
  assumes "keyword \<in> set seriousKeywords"
  shows "contains table title keyword \<longleftrightarrow> containsIgnoringCase table title keyword"
proof -
  have "\<forall>k \<in> set keyword. k \<le> 0x7F"
    using seriousKeywords_ascii [OF assms] by auto
  then show ?thesis
    using contains_lowerOccurs [OF assms] lowerOccurs_iff by simp
qed

lemma isFun_loop_eq:
  "set ks \<subseteq> set seriousKeywords \<Longrightarrow>
     isFun_loop table title ks
       \<longleftrightarrow> \<not> (\<exists>keyword \<in> set ks. containsIgnoringCase table title keyword)"
  by (induction ks) (auto simp: contains_keyword)

lemma filterFunHolidays_loop_eq:
  "filterFunHolidays_loop table holidays funHolidays =
     funHolidays @ filter (\<lambda>h. \<not> serious table (Holiday_Title h)) holidays"
  by (induction holidays arbitrary: funHolidays) (simp_all add: isFun_loop_eq serious_def)

lemma titles_loop_eq:
  "i + fuel = length funHolidays \<Longrightarrow> maxCount \<le> int (length funHolidays) \<Longrightarrow>
     titles_loop fuel i maxCount funHolidays holidays =
       holidays @ map Holiday_Title (drop i (take (nat maxCount) funHolidays))"
proof (induction fuel arbitrary: i holidays)
  case 0
  then show ?case by simp
next
  case (Suc fuel)
  show ?case
  proof (cases "int i < maxCount")
    case True
    then have i: "i < nat maxCount" "i < length funHolidays" using Suc.prems by auto
    then have "drop i (take (nat maxCount) funHolidays)
                 = funHolidays ! i # drop (Suc i) (take (nat maxCount) funHolidays)"
      by (simp add: Cons_nth_drop_Suc [symmetric])
    with True Suc.IH [of "Suc i"] Suc.prems show ?thesis by simp
  next
    case False
    then have "nat maxCount \<le> i" by simp
    with False show ?thesis by simp
  qed
qed

section \<open>Facts about the scanner and the clock\<close>

lemma isSpace_CR: "isSpace CR" by (simp add: isSpace_def CR_def)
lemma isSpace_NL': "isSpace NL" by (simp add: isSpace_def NL_def)

lemma SkipSpace_eq:
  "SkipSpace s =
     (if NL \<in> set (takeWhile isSpace s) then Inl UnexpectedNewline else Inr (dropWhile isSpace s))"
proof (induction s rule: SkipSpace.induct)
  case 1
  then show ?case by simp
next
  case (2 r rs)
  show ?case
  proof (cases "r = CR \<and> rs \<noteq> [] \<and> hd rs = NL")
    case True
    then obtain rs' where "rs = NL # rs'" by (cases rs) auto
    with True 2 show ?thesis by (simp add: isSpace_CR isSpace_NL')
  next
    case False
    with 2 show ?thesis by (auto simp: isSpace_NL')
  qed
qed


lemma fields_dropWhile: "cronFields (dropWhile isSpace s) = cronFields s"
proof -
  have "dropWhile isSpace (dropWhile isSpace s) = dropWhile isSpace s"
    by (simp add: dropWhile_idem)
  then show ?thesis
    by (simp add: cronFields.simps [of "dropWhile isSpace s"] cronFields.simps [of s])
qed

lemma fields_token:
  assumes "tok \<noteq> []" "\<forall>x \<in> set tok. \<not> isSpace x" "r = [] \<or> isSpace (hd r)"
  shows "cronFields (tok @ r) = tok # cronFields r"
proof -
  have d: "dropWhile isSpace (tok @ r) = tok @ r"
    using assms(1,2) by (cases tok) auto
  have t: "takeWhile (\<lambda>x. \<not> isSpace x) (tok @ r) = tok"
    using assms(2,3) by (cases r) (auto simp: takeWhile_append2)
  have "dropWhile (\<lambda>x. \<not> isSpace x) (tok @ r) = r"
    using assms(2,3) by (cases r) (auto simp: dropWhile_append2)
  with d t assms(1) show ?thesis
    by (simp add: cronFields.simps [of "tok @ r"])
qed


lemma isDigit_not_space: "isDigit r \<Longrightarrow> \<not> isSpace r"
  by (auto simp: isDigit_def isSpace_def)

lemma isSign_not_space: "isSign r \<Longrightarrow> \<not> isSpace r"
  by (auto simp: isSign_def isSpace_def)

lemma isDigit_not_sign: "isDigit r \<Longrightarrow> \<not> isSign r"
  by (auto simp: isDigit_def isSign_def)

lemma ParseInt_intField: "ParseInt f = Inr v \<Longrightarrow> intField f = Some v"
  by (auto simp: ParseInt_def intField_def Let_def split: if_splits)


lemma token_at_fields:
  assumes "token_at s tok r" "r = [] \<or> isSpace (hd r)"
  shows "cronFields s = tok # cronFields r"
proof -
  from assms(1) have d: "dropWhile isSpace s = tok @ r"
    and tok: "tok \<noteq> []" "\<forall>x \<in> set tok. \<not> isSpace x"
    by (simp_all add: token_at_def)
  have "cronFields s = cronFields (dropWhile isSpace s)"
    by (rule fields_dropWhile [symmetric])
  also have "\<dots> = cronFields (tok @ r)"
    by (simp only: d)
  also have "\<dots> = tok # cronFields r"
    using tok assms(2) by (rule fields_token)
  finally show ?thesis .
qed


lemma scanInt_backward:
  assumes "scanInt t = Inr (v, r)"
  shows "\<exists>tok. token_at t tok r \<and> intField tok = Some v"
proof -
  define s1 where "s1 = dropWhile isSpace t"
  define sgn where "sgn = (if isSign (hd s1) then [hd s1] else [])"
  define s2 where "s2 = (if isSign (hd s1) then tl s1 else s1)"
  from assms have sk: "SkipSpace t = Inr s1"
    by (auto simp: scanInt_def SkipSpace_eq s1_def split: if_splits)
  with assms have s1: "s1 \<noteq> []" and s2: "s2 \<noteq> []" "isDigit (hd s2)"
    and p: "ParseInt (sgn @ takeWhile isDigit s2) = Inr v" and r: "r = dropWhile isDigit s2"
    by (auto simp: scanInt_def Let_def sgn_def s2_def split: if_splits sum.splits)
  let ?tok = "sgn @ takeWhile isDigit s2"
  have "s1 = sgn @ s2" using s1 by (cases s1) (auto simp: sgn_def s2_def)
  then have "s1 = ?tok @ r" by (simp add: r)
  moreover have "?tok \<noteq> []" using s2 by (cases s2) auto
  moreover have "\<forall>x \<in> set ?tok. \<not> isSpace x"
    using s1 by (auto simp: sgn_def isSign_not_space isDigit_not_space dest: set_takeWhileD split: if_splits)
  ultimately have "token_at t ?tok r" by (simp add: token_at_def s1_def)
  with p show ?thesis by (blast intro: ParseInt_intField)
qed

lemma verb_d_backward:
  assumes "verb_d s = Inr (v, r)"
  shows "\<exists>tok. token_at s tok r \<and> intField tok = Some v"
proof -
  from assms have "scanInt (dropWhile isSpace s) = Inr (v, r)"
    by (auto simp: verb_d_def SkipSpace_eq split: if_splits)
  from scanInt_backward [OF this] show ?thesis
    by (simp add: token_at_def dropWhile_idem)
qed

lemma dropWhile_dropWhile_sub:
  "(\<And>x. Q x \<Longrightarrow> P x) \<Longrightarrow> dropWhile P (dropWhile Q xs) = dropWhile P xs"
  by (induction xs) auto

lemma advance_backward:
  assumes "advance r = Inr r'"
  shows "(r = [] \<or> isSpace (hd r)) \<and> cronFields r' = cronFields r"
proof (cases r)
  case Nil
  with assms show ?thesis by (simp add: advance_def)
next
  case (Cons c rest)
  with assms have c: "isSpace c" and r': "r' = dropWhile (\<lambda>x. isSpace x \<and> x \<noteq> NL) rest"
    by (auto simp: advance_def split: if_splits)
  have "dropWhile isSpace r' = dropWhile isSpace rest"
    unfolding r' by (rule dropWhile_dropWhile_sub) simp
  also have "\<dots> = dropWhile isSpace r" using c Cons by simp
  finally have "cronFields r' = cronFields r"
    using fields_dropWhile [of r'] fields_dropWhile [of r] by simp
  with c Cons show ?thesis by simp
qed



lemma Sscanf_success:
  assumes "Sscanf s = (n, None, a)"
  shows "\<exists>r1 r1' r2 r2'. verb_d s = Inr (minute a, r1) \<and> advance r1 = Inr r1' \<and>
           verb_d r1' = Inr (hour a, r2) \<and> advance r2 = Inr r2'"
  using assms unfolding Sscanf_def Let_def
  by (auto split: sum.splits prod.splits simp: zero_operands_def)

lemma ParseCron_success:
  assumes "ParseCron s = Inr (h, m)"
  shows "leadingFields s = Some (m, h) \<and> 0 \<le> h \<and> h \<le> 23 \<and> 0 \<le> m \<and> m \<le> 59"
proof -
  obtain n err a where sc: "Sscanf s = (n, err, a)" by (cases "Sscanf s") auto
  with assms have err: "err = None" and h: "h = hour a" and m: "m = minute a"
    and range: "0 \<le> h \<and> h \<le> 23 \<and> 0 \<le> m \<and> m \<le> 59"
    by (auto simp: ParseCron_def split: if_splits)
  from Sscanf_success [OF sc [unfolded err]] obtain r1 r1' r2 r2'
    where v1: "verb_d s = Inr (minute a, r1)" and a1: "advance r1 = Inr r1'"
      and v2: "verb_d r1' = Inr (hour a, r2)" and a2: "advance r2 = Inr r2'"
    by blast
  from verb_d_backward [OF v1] obtain tok1
    where t1: "token_at s tok1 r1" "intField tok1 = Some (minute a)" by blast
  from verb_d_backward [OF v2] obtain tok2
    where t2: "token_at r1' tok2 r2" "intField tok2 = Some (hour a)" by blast
  from advance_backward [OF a1] have b1: "r1 = [] \<or> isSpace (hd r1)" "cronFields r1' = cronFields r1"
    by simp_all
  from advance_backward [OF a2] have b2: "r2 = [] \<or> isSpace (hd r2)"
    by simp
  have "cronFields s = tok1 # cronFields r1"
    using t1(1) b1(1) by (rule token_at_fields)
  moreover have "cronFields r1' = tok2 # cronFields r2"
    using t2(1) b2 by (rule token_at_fields)
  ultimately have "cronFields s = tok1 # tok2 # cronFields r2"
    using b1(2) by simp
  then have "leadingFields s = Some (minute a, hour a)"
    using t1(2) t2(2) by (simp add: leadingFields_def)
  with h m range show ?thesis by simp
qed













lemma Start_loop_eq: "Start_loop period n = concat (replicate n [Ticker period, RunJob])"
  by (induction n) simp_all



section \<open>The claims\<close>

subsection \<open>HTML cleaning\<close>

text \<open>
  Claim C4. \<open>cleanHTML\<close> is idempotent: cleaning an already cleaned string returns the
  same string.
\<close>

theorem cleanHTML_idempotent: "cleanHTML (cleanHTML s) = cleanHTML s"
  by (intro cleanHTML_fixpoint cleanHTML_noTag cleanHTML_trimmed cleanHTML_no_triple)

text \<open>
  Claim C10. In the string that \<open>cleanHTML\<close> returns no \<open><\<close> is followed anywhere later
  by a \<open>>\<close>, there is no run of three newlines, and there is no white space at either end.
\<close>

theorem cleanHTML_output:
  "(\<forall>a b c. cleanHTML s \<noteq> a @ LT # b @ GT # c) \<and>
   (\<forall>pre post. cleanHTML s \<noteq> pre @ [NL, NL, NL] @ post) \<and>
   (cleanHTML s = [] \<or> (\<not> isSpace (hd (cleanHTML s)) \<and> \<not> isSpace (last (cleanHTML s))))"
proof (intro conjI)
  show "\<forall>a b c. cleanHTML s \<noteq> a @ LT # b @ GT # c"
    using cleanHTML_noTag [of s] unfolding noTag_iff .
  show "\<forall>pre post. cleanHTML s \<noteq> pre @ [NL, NL, NL] @ post"
    using cleanHTML_no_triple [of s] unfolding Contains_def Index_None_iff by simp
  show "cleanHTML s = [] \<or> (\<not> isSpace (hd (cleanHTML s)) \<and> \<not> isSpace (last (cleanHTML s)))"
    using cleanHTML_trimmed [of s] unfolding trimmed_def .
qed

subsection \<open>Mapping a feed item\<close>

text \<open>
  Claim C5. If the item's title contains a colon, \<open>parseItem\<close> sets the year to the trimmed
  text before the first colon and the title to the trimmed text after it; if it contains
  none, the year is empty and the title is the item's title; the category is the first
  category tag when there is one. The witness is the item of the package's test,
  \<open>1969: Apollo 11 lands on the Moon\<close>, and the same title without the year.
\<close>

theorem parseItem_fields:
  "(COLON \<in> set (Item_Title item) \<longrightarrow>
      Year (parseItem item) = TrimSpace (takeWhile (\<lambda>c. c \<noteq> COLON) (Item_Title item)) \<and>
      Title (parseItem item) = TrimSpace (tl (dropWhile (\<lambda>c. c \<noteq> COLON) (Item_Title item)))) \<and>
   (COLON \<notin> set (Item_Title item) \<longrightarrow>
      Year (parseItem item) = [] \<and> Title (parseItem item) = Item_Title item) \<and>
   (Item_Categories item \<noteq> [] \<longrightarrow> Category (parseItem item) = hd (Item_Categories item))"
  by (simp add: parseItem_def SplitN_colon Let_def hd_conv_nth)

theorem parseItem_fields_witness:
  "COLON \<in> set (Item_Title apollo) \<and> Item_Categories apollo \<noteq> [] \<and>
   Year (parseItem apollo) = str ''1969'' \<and>
   Title (parseItem apollo) = str ''Apollo 11 lands on the Moon'' \<and>
   Category (parseItem apollo) = str ''Science'' \<and>
   COLON \<notin> set (Item_Title apollo_no_year) \<and>
   Year (parseItem apollo_no_year) = [] \<and>
   Title (parseItem apollo_no_year) = str ''Apollo 11 lands on the Moon''"
  using parseItem_fields [of apollo] parseItem_fields [of apollo_no_year]
  by (simp add: apollo_def apollo_no_year_def str_def COLON_def TrimSpace_def isSpace_def)

subsection \<open>Fetching the feeds\<close>

text \<open>
  Claim C8. \<open>FetchMultipleFeeds\<close> absorbs the failure of a feed: the feed is reported in a
  warning and skipped. The call returns an error exactly when no event was obtained from
  any feed, and otherwise the events of the feeds that could be fetched, concatenated in
  feed order.
\<close>

theorem FetchMultipleFeeds_result:
  "FetchMultipleFeeds net urls =
     (if fetchedEvents net urls = [] then Inl NoEventsFetched else Inr (fetchedEvents net urls),
      failedFeeds net urls)"
  by (simp add: FetchMultipleFeeds_def FetchMultipleFeeds_loop_eq)

theorem FetchMultipleFeeds_result_witness:
  "FetchMultipleFeeds twoFeeds [str ''a'', str ''b''] =
     (Inr [parseItem apollo, parseItem apollo_no_year], [(str ''a'', FetchFailed)]) \<and>
   FetchMultipleFeeds twoFeeds [str ''a''] = (Inl NoEventsFetched, [(str ''a'', FetchFailed)])"
  using FetchMultipleFeeds_result [of twoFeeds "[str ''a'', str ''b'']"]
        FetchMultipleFeeds_result [of twoFeeds "[str ''a'']"]
  by (simp add: fetchedEvents_def failedFeeds_def FetchAndParse_def fetchItems_def twoFeeds_def str_def)

subsection \<open>Extracting the JSON\<close>

text \<open>
  Claim C6, as amended. If the first \<open>```json\<close> of the input is followed by a \<open>```\<close>, the
  result is what stands between that opening fence and the first \<open>```\<close> after it. If the
  input has no \<open>```json\<close> and its first \<open>```\<close> is followed by another, the result is what
  stands between the two. An input with no \<open>```\<close> is returned unchanged. The only language
  tag that is stripped is \<open>json\<close>.
\<close>

theorem extractJSON_interior:
  "(s = pre @ fence_json @ body @ fence @ post \<and>
    Index s fence_json = Some (length pre) \<and>
    Index (body @ fence @ post) fence = Some (length body) \<longrightarrow> extractJSON s = body) \<and>
   (s = pre @ fence @ body @ fence @ post \<and> \<not> Contains s fence_json \<and>
    Index s fence = Some (length pre) \<and>
    Index (body @ fence @ post) fence = Some (length body) \<longrightarrow> extractJSON s = body) \<and>
   (\<not> Contains s fence \<longrightarrow> extractJSON s = s)"
  using extractJSON_tagged [of s pre body post] extractJSON_untagged [of s pre body post]
    extractJSON_no_fence [of s]
  by blast

theorem extractJSON_interior_witness:
  "Index (fence_json @ ([NL] @ str ''{}'' @ [NL]) @ fence) fence_json = Some 0 \<and>
   Index (([NL] @ str ''{}'' @ [NL]) @ fence) fence = Some 4 \<and>
   extractJSON (fence_json @ ([NL] @ str ''{}'' @ [NL]) @ fence) = [NL] @ str ''{}'' @ [NL] \<and>
   \<not> Contains (fence @ ([NL] @ str ''{}'' @ [NL]) @ fence) fence_json \<and>
   Index (fence @ ([NL] @ str ''{}'' @ [NL]) @ fence) fence = Some 0 \<and>
   extractJSON (fence @ ([NL] @ str ''{}'' @ [NL]) @ fence) = [NL] @ str ''{}'' @ [NL] \<and>
   \<not> Contains (str ''{}'') fence \<and>
   extractJSON (str ''{}'') = str ''{}''"
  using extractJSON_interior [of "fence_json @ ([NL] @ str ''{}'' @ [NL]) @ fence" "[]"
                                 "[NL] @ str ''{}'' @ [NL]" "[]"]
        extractJSON_interior [of "fence @ ([NL] @ str ''{}'' @ [NL]) @ fence" "[]"
                                 "[NL] @ str ''{}'' @ [NL]" "[]"]
        extractJSON_interior [of "str ''{}''" "[]" "[]" "[]"]
  by (simp add: Contains_def fence_simps)

text \<open>
  The claim as stated (a fence with any language tag) fails: with the tag \<open>js\<close> the tag
  is part of what \<open>extractJSON\<close> returns.
\<close>

theorem extractJSON_other_tag:
  "extractJSON (fence @ str ''js'' @ [NL] @ str ''{}'' @ [NL] @ fence) = str ''js'' @ [NL] @ str ''{}'' @ [NL] \<and>
   extractJSON (fence @ str ''js'' @ [NL] @ str ''{}'' @ [NL] @ fence) \<noteq> [NL] @ str ''{}'' @ [NL]"
  by (simp add: extractJSON_def Contains_def fence_simps)

subsection \<open>Posting\<close>

text \<open>
  Claim C7. With no event and no holiday \<open>PostEventsWithHolidays\<close> returns an error, and
  nothing has been serialized or sent.
\<close>

theorem PostEventsWithHolidays_nothing:
  "PostEventsWithHolidays p dateStr [] [] = (Some NoEventsOrHolidays, [])"
  by (simp add: PostEventsWithHolidays_def)

subsection \<open>Filtering the holidays\<close>

text \<open>
  Claim C9. \<open>filterFunHolidays\<close> keeps, in their order, the holidays whose title contains
  no serious keyword when case is ignored; the job then takes the titles of the first
  \<open>min(MaxHolidays, number of holidays kept)\<close> of them. In the witness the title
  \<open>world peace day\<close> is dropped for the keywords \<open>World\<close> and \<open>Peace\<close>, which it contains only
  when case is ignored.
\<close>

theorem filterFunHolidays_selection:
  "filterFunHolidays table holidayData
     = filter (\<lambda>h. \<not> serious table (Holiday_Title h)) holidayData \<and>
   selectHolidays table MaxHolidays holidayData
     = map Holiday_Title
         (take (nat (min MaxHolidays (int (length (filterFunHolidays table holidayData)))))
            (filterFunHolidays table holidayData))"
proof
  show "filterFunHolidays table holidayData
          = filter (\<lambda>h. \<not> serious table (Holiday_Title h)) holidayData"
    by (simp add: filterFunHolidays_def filterFunHolidays_loop_eq)
  let ?kept = "filterFunHolidays table holidayData"
  have "titles_loop (length ?kept) 0 (min MaxHolidays (int (length ?kept))) ?kept []
          = [] @ map Holiday_Title (drop 0 (take (nat (min MaxHolidays (int (length ?kept)))) ?kept))"
    by (rule titles_loop_eq) simp_all
  moreover have "(if MaxHolidays > int (length ?kept) then int (length ?kept) else MaxHolidays)
                   = min MaxHolidays (int (length ?kept))"
    by simp
  ultimately show "selectHolidays table MaxHolidays holidayData
     = map Holiday_Title (take (nat (min MaxHolidays (int (length ?kept)))) ?kept)"
    by (simp add: selectHolidays_def Let_def)
qed

theorem filterFunHolidays_selection_witness:
  "filterFunHolidays id [holiday ''world peace day'', holiday ''Donut Day'', holiday ''Pirate Day'']
     = [holiday ''Donut Day'', holiday ''Pirate Day''] \<and>
   \<not> serious id (str ''Donut Day'') \<and>
   selectHolidays id 1 [holiday ''world peace day'', holiday ''Donut Day'', holiday ''Pirate Day'']
     = [str ''Donut Day'']"
proof -
  have f: "filterFunHolidays id [holiday ''world peace day'', holiday ''Donut Day'', holiday ''Pirate Day'']
     = [holiday ''Donut Day'', holiday ''Pirate Day'']"
    by code_simp
  note t = filterFunHolidays_selection
      [of id "[holiday ''world peace day'', holiday ''Donut Day'', holiday ''Pirate Day'']" 1,
       unfolded f]
  have "selectHolidays id 1 [holiday ''world peace day'', holiday ''Donut Day'', holiday ''Pirate Day'']
          = [Holiday_Title (holiday ''Donut Day'')]"
    using t by simp
  moreover have "\<not> serious id (str ''Donut Day'')"
  proof -
    have "holiday ''Donut Day''
            \<in> set (filter (\<lambda>h. \<not> serious id (Holiday_Title h))
                   [holiday ''world peace day'', holiday ''Donut Day'', holiday ''Pirate Day''])"
      using t by (metis list.set_intros(1))
    then have "\<not> serious id (Holiday_Title (holiday ''Donut Day''))"
      unfolding set_filter by blast
    then show ?thesis by (simp add: holiday_def)
  qed
  ultimately show ?thesis
    by (simp add: f) (simp add: holiday_def)
qed

subsection \<open>The schedule\<close>

text \<open>
  Claim C3. A schedule string whose first two fields are not both integers, or whose
  parsed hour is outside 0-23, or whose parsed minute is outside 0-59, makes \<open>ParseCron\<close>
  return an error, and \<open>NextRunTime\<close> with it.
\<close>

theorem ParseCron_rejects:
  assumes "case leadingFields s of None \<Rightarrow> True
           | Some (m, h) \<Rightarrow> h < 0 \<or> 23 < h \<or> m < 0 \<or> 59 < m"
  shows "isl (ParseCron s) \<and> isl (NextRunTime now s)"
proof (cases "ParseCron s")
  case (Inl err)
  then show ?thesis by (simp add: NextRunTime_def)
next
  case (Inr hm)
  obtain h m where "hm = (h, m)" by (cases hm)
  with Inr ParseCron_success [of s h m] assms show ?thesis by auto
qed

theorem ParseCron_rejects_witness:
  "leadingFields (str ''0 25 * * *'') = Some (0, 25) \<and>
   isl (ParseCron (str ''0 25 * * *'')) \<and> isl (NextRunTime 0 (str ''0 25 * * *'')) \<and>
   leadingFields (str ''60 9 * * *'') = Some (60, 9) \<and>
   isl (ParseCron (str ''60 9 * * *'')) \<and>
   leadingFields (str ''invalid'') = None \<and>
   isl (ParseCron (str ''invalid''))"
proof -
  have 1: "leadingFields (str ''0 25 * * *'') = Some (0, 25)"
    by (simp add: leadingFields_def cronFields.simps intField_def decimal_def isDigit_def isSign_def
          isSpace_def str_def Let_def)
  have 2: "leadingFields (str ''60 9 * * *'') = Some (60, 9)"
    by (simp add: leadingFields_def cronFields.simps intField_def decimal_def isDigit_def isSign_def
          isSpace_def str_def Let_def)
  have 3: "leadingFields (str ''invalid'') = None"
    by (simp add: leadingFields_def cronFields.simps intField_def decimal_def isDigit_def isSign_def
          isSpace_def str_def Let_def)
  from ParseCron_rejects [of "str ''0 25 * * *''" 0] ParseCron_rejects [of "str ''60 9 * * *''" 0]
       ParseCron_rejects [of "str ''invalid''" 0] 1 2 3
  show ?thesis by simp
qed




subsection \<open>The first run\<close>

text \<open>
  Claim C2, as amended. In scheduled mode, with a context that is not cancelled during
  the first wait and a first-run instant within the range of a \<open>Duration\<close> from now: if
  the instant is now or in the future, the timer fires at exactly that instant; if it is in
  the past, 24 hours are added to the delay, so that the timer fires 24 hours after that
  instant (at once only if that is past too). Then the job is run, and run again at each
  tick of a ticker whose period is 24 hours.
\<close>

theorem StartAt_first_run:
  assumes "minDuration \<le> firstRun - now" "firstRun - now \<le> maxDuration"
  shows "StartAt (NewScheduler DailyInterval False) job now firstRun (CancelledAfterTicks n)
           = (Cancelled,
              Timer (if firstRun < now then firstRun - now + 24 * Hour else firstRun - now)
                # RunJob # concat (replicate n [Ticker (24 * Hour), RunJob])) \<and>
         firesAt now (if firstRun < now then firstRun - now + 24 * Hour else firstRun - now)
           = (if firstRun < now then max now (firstRun + 24 * Hour) else firstRun)"
proof -
  have "Until now firstRun = firstRun - now"
    using assms by (simp add: Until_def Sub_def)
  moreover have "0 < 24 * Hour" by (simp add: Hour_def Minute_def Second_def)
  ultimately have "StartAt (NewScheduler DailyInterval False) job now firstRun (CancelledAfterTicks n)
           = (Cancelled,
              Timer (if firstRun < now then firstRun - now + 24 * Hour else firstRun - now)
                # RunJob # concat (replicate n [Ticker (24 * Hour), RunJob]))"
    by (simp add: StartAt_def Start_def NewScheduler_def DailyInterval_def Start_loop_eq Let_def)
  moreover have "firesAt now (if firstRun < now then firstRun - now + 24 * Hour else firstRun - now)
           = (if firstRun < now then max now (firstRun + 24 * Hour) else firstRun)"
    by (simp add: firesAt_def max_def)
  ultimately show ?thesis by (rule conjI)
qed

theorem StartAt_first_run_witness:
  "minDuration \<le> 9 * Hour - 10 * Hour \<and> 9 * Hour - 10 * Hour \<le> maxDuration \<and>
   StartAt (NewScheduler DailyInterval False) (\<lambda>k. True) (10 * Hour) (9 * Hour) (CancelledAfterTicks 2)
     = (Cancelled, [Timer (23 * Hour), RunJob, Ticker (24 * Hour), RunJob, Ticker (24 * Hour), RunJob]) \<and>
   minDuration \<le> 12 * Hour - 10 * Hour \<and> 12 * Hour - 10 * Hour \<le> maxDuration \<and>
   StartAt (NewScheduler DailyInterval False) (\<lambda>k. True) (10 * Hour) (12 * Hour) (CancelledAfterTicks 1)
     = (Cancelled, [Timer (2 * Hour), RunJob, Ticker (24 * Hour), RunJob]) \<and>
   firesAt (10 * Hour) (2 * Hour) = 12 * Hour"
proof -
  have 1: "minDuration \<le> 9 * Hour - 10 * Hour" "9 * Hour - 10 * Hour \<le> maxDuration"
    by (simp_all add: minDuration_def maxDuration_def Hour_def Minute_def Second_def)
  have 2: "minDuration \<le> 12 * Hour - 10 * Hour" "12 * Hour - 10 * Hour \<le> maxDuration"
    by (simp_all add: minDuration_def maxDuration_def Hour_def Minute_def Second_def)
  have h: "(9 * Hour < 10 * Hour) = True" "(12 * Hour < 10 * Hour) = False"
    by (simp_all add: Hour_def Minute_def Second_def)
  from StartAt_first_run [OF 1, of "\<lambda>k. True" 2] StartAt_first_run [OF 2, of "\<lambda>k. True" 1] 1 2
  show ?thesis
    by (simp add: h numeral_2_eq_2)
qed

text \<open>
  The claim as stated (a first-run instant in the past runs the job at once) fails: with
  the clock at 10:00 and a first run at 9:00 of the same day the timer is armed with 23
  hours.
\<close>

theorem StartAt_past_first_run:
  "StartAt (NewScheduler DailyInterval False) (\<lambda>k. True) (10 * Hour) (9 * Hour) (CancelledAfterTicks 0)
     = (Cancelled, [Timer (23 * Hour), RunJob]) \<and>
   firesAt (10 * Hour) (23 * Hour) = 33 * Hour \<and> 33 * Hour \<noteq> 10 * Hour"
  by (simp add: StartAt_def Start_def NewScheduler_def DailyInterval_def Until_def Sub_def
                minDuration_def maxDuration_def firesAt_def Hour_def Minute_def Second_def)

end
